theory Spec2Isabelle
  imports Main
begin

section \<open>JavaScript numbers\<close>

text \<open>
  The program computes with JavaScript numbers (IEEE 754 doubles). The model holds the
  values the program's integer arithmetic can reach: \<open>NaN\<close>, the two infinities and the
  integers, \<open>Fin i\<close>. A double that holds an integer is an integer with at most 53
  significant bits (times a power of two), so a sum of two of them is rounded to the
  nearest such integer, ties to the even significand, and overflows to an infinity from
  \<open>2 ^ 1024\<close> on: \<open>round_to_double\<close>. Numbers with a fractional part are outside the
  model, so every statement below about finite arguments is about integers; the two
  zeros are one value.
\<close>

datatype number = NaN | NegInfinity | Fin int | PosInfinity

fun bit_length :: "nat \<Rightarrow> nat" where
  "bit_length n = (if n = 0 then 0 else Suc (bit_length (n div 2)))"

declare bit_length.simps [simp del]

definition round_to_double :: "int \<Rightarrow> number" where
  "round_to_double x =
     (let m = \<bar>x\<bar> in
      if m \<le> 2 ^ 53 then Fin x
      else
        let e = bit_length (nat m) - 53;
            q = m div 2 ^ e;
            r = m mod 2 ^ e;
            q' = (if 2 ^ e < 2 * r \<or> (2 * r = 2 ^ e \<and> odd q) then q + 1 else q);
            y = q' * 2 ^ e
        in if 2 ^ 1024 \<le> y then (if x < 0 then NegInfinity else PosInfinity)
           else Fin (if x < 0 then - y else y))"

text \<open>\<open>a + b\<close>\<close>

fun js_add :: "number \<Rightarrow> number \<Rightarrow> number" where
  "js_add NaN _ = NaN"
| "js_add _ NaN = NaN"
| "js_add PosInfinity NegInfinity = NaN"
| "js_add NegInfinity PosInfinity = NaN"
| "js_add PosInfinity _ = PosInfinity"
| "js_add _ PosInfinity = PosInfinity"
| "js_add NegInfinity _ = NegInfinity"
| "js_add _ NegInfinity = NegInfinity"
| "js_add (Fin a) (Fin b) = round_to_double (a + b)"

text \<open>\<open>a < b\<close>: false as soon as one side is \<open>NaN\<close>.\<close>

fun js_lt :: "number \<Rightarrow> number \<Rightarrow> bool" where
  "js_lt NaN _ = False"
| "js_lt _ NaN = False"
| "js_lt NegInfinity NegInfinity = False"
| "js_lt NegInfinity _ = True"
| "js_lt _ NegInfinity = False"
| "js_lt PosInfinity _ = False"
| "js_lt _ PosInfinity = True"
| "js_lt (Fin a) (Fin b) = (a < b)"

text \<open>\<open>a > b\<close>\<close>

definition js_gt :: "number \<Rightarrow> number \<Rightarrow> bool" where
  "js_gt a b = js_lt b a"

text \<open>\<open>a === b\<close> on numbers: \<open>NaN\<close> equals nothing.\<close>

definition js_strict_eq :: "number \<Rightarrow> number \<Rightarrow> bool" where
  "js_strict_eq a b = (a \<noteq> NaN \<and> a = b)"

definition isNaN :: "number \<Rightarrow> bool" where
  "isNaN x = (x = NaN)"

text \<open>\<open>!x\<close> on a number: true for zero and \<open>NaN\<close>.\<close>

definition js_not :: "number \<Rightarrow> bool" where
  "js_not x = (x = NaN \<or> x = Fin 0)"

text \<open>\<open>Math.min(a, b)\<close>\<close>

definition Math_min :: "number \<Rightarrow> number \<Rightarrow> number" where
  "Math_min a b = (if a = NaN \<or> b = NaN then NaN else if js_lt b a then b else a)"

section \<open>Errors\<close>

text \<open>
  The exceptions of the program, as values. \<open>Error\<close>, \<open>TypeError\<close> and \<open>RangeError\<close>
  carry their message; \<open>UnexpectedTokenTypeError expected received\<close> and
  \<open>UnexpectedChildrenError expected got\<close> carry what their message is built from.
  \<open>UndefinedAccess\<close> is the \<open>TypeError\<close> the engine raises when the code reads a
  property of \<open>undefined\<close>.
\<close>

datatype error =
    Error string
  | TypeError string
  | RangeError string
  | UnexpectedTokenTypeError string string
  | UnexpectedChildrenError string nat
  | UndefinedAccess

section \<open>The Range/Step Sequencer: \<open>range\<close> (utils)\<close>

text \<open>
  \<open>range\<close> is a generator function. A generator object is its suspended body: the
  place it stopped at and its local variables. \<open>range args\<close> is the call; nothing of
  the body runs before the first \<open>next\<close>.
\<close>

datatype range_gen =
    Entry "number list"
  | AscendingLoop number number number
  | DescendingLoop number number number
  | Returned

text \<open>
  The states are the places where the body can be suspended, each with the variables
  that are still read from there: \<open>Entry args\<close> before the first \<open>next\<close>,
  \<open>AscendingLoop start stop step\<close> and \<open>DescendingLoop start stop step\<close> at the
  \<open>yield\<close> of either loop, \<open>Returned\<close> after the end.
\<close>

definition range :: "number list \<Rightarrow> range_gen" where
  "range args = Entry args"

text \<open>The test of \<open>while (start > stop)\<close>, and the \<open>yield\<close> behind it.\<close>

definition descending_test :: "number \<Rightarrow> number \<Rightarrow> number \<Rightarrow> number option \<times> range_gen" where
  "descending_test start stop step =
     (if js_gt start stop then (Some start, DescendingLoop start stop step)
      else (None, Returned))"

text \<open>\<open>if (start > stop) { if (_step > 0) return; while ... }\<close>\<close>

definition descending_block :: "number \<Rightarrow> number \<Rightarrow> number \<Rightarrow> number option \<times> range_gen" where
  "descending_block start stop step =
     (if js_gt start stop
      then (if js_gt step (Fin 0) then (None, Returned) else descending_test start stop step)
      else (None, Returned))"

text \<open>
  The test of \<open>while (start < stop)\<close>, and the \<open>yield\<close> behind it; when the loop
  ends, control falls through to the descending block.
\<close>

definition ascending_test :: "number \<Rightarrow> number \<Rightarrow> number \<Rightarrow> number option \<times> range_gen" where
  "ascending_test start stop step =
     (if js_lt start stop then (Some start, AscendingLoop start stop step)
      else descending_block start stop step)"

text \<open>The body after the \<open>switch\<close>, up to the first \<open>yield\<close> or \<open>return\<close>.\<close>

definition range_body :: "number \<Rightarrow> number \<Rightarrow> number \<Rightarrow> number option \<times> range_gen" where
  "range_body start stop step =
     (if isNaN start \<or> isNaN stop \<or> isNaN step then (None, Returned)
      else if js_strict_eq start stop \<or> js_not step then (None, Returned)
      else if js_lt start stop
        then (if js_lt step (Fin 0) then (None, Returned) else ascending_test start stop step)
      else descending_block start stop step)"

text \<open>
  \<open>g.next()\<close>: runs the body from where it is suspended to the next \<open>yield\<close>
  (\<open>Some v\<close>) or to its end (\<open>None\<close>). From \<open>Entry\<close> it starts with the
  \<open>switch (arguments.length)\<close>; \<open>Number\<close> of a number is that number, and an argument
  passed as \<open>undefined\<close> is \<open>NaN\<close> under \<open>Number\<close>. Resuming inside a loop runs
  \<open>start += _step\<close> and the loop's test.
\<close>

fun range_next :: "range_gen \<Rightarrow> error + (number option \<times> range_gen)" where
  "range_next (Entry [a]) = Inr (range_body (Fin 0) a (Fin 1))"
| "range_next (Entry [a, b]) = Inr (range_body a b (if js_lt a b then Fin 1 else Fin (- 1)))"
| "range_next (Entry [a, b, c]) = Inr (range_body a b c)"
| "range_next (Entry _) = Inl (Error ''Invalid arguments to range'')"
| "range_next (AscendingLoop start stop step) =
     Inr (ascending_test (js_add start step) stop step)"
| "range_next (DescendingLoop start stop step) =
     Inr (descending_test (js_add start step) stop step)"
| "range_next Returned = Inr (None, Returned)"

text \<open>The first \<open>n\<close> values the generator yields (fewer when it ends or throws before).\<close>

fun take_gen :: "nat \<Rightarrow> range_gen \<Rightarrow> number list" where
  "take_gen 0 g = []"
| "take_gen (Suc n) g =
     (case range_next g of
        Inl e \<Rightarrow> []
      | Inr (None, g') \<Rightarrow> []
      | Inr (Some v, g') \<Rightarrow> v # take_gen n g')"

text \<open>
  \<open>[...g]\<close> (and a \<open>for ... of\<close> loop over \<open>g\<close> that collects): every value, in order.
  The result is \<open>None\<close> when the generator never ends, \<open>Some (Inl e)\<close> when it throws.
\<close>

partial_function (option) spread :: "range_gen \<Rightarrow> (error + number list) option" where
  "spread g =
     (case range_next g of
        Inl e \<Rightarrow> Some (Inl e)
      | Inr (None, g') \<Rightarrow> Some (Inr [])
      | Inr (Some v, g') \<Rightarrow>
          Option.bind (spread g')
            (\<lambda>r. Some (case r of Inl e \<Rightarrow> Inl e | Inr vs \<Rightarrow> Inr (v # vs))))"

subsection \<open>The sequence the specification describes\<close>

text \<open>
  The reference the sequencer is compared with, on the integers and with exact
  arithmetic: from \<open>s\<close> in steps of \<open>c\<close>, as long as the value has not reached \<open>b\<close>.
\<close>

function spec_ascending :: "int \<Rightarrow> int \<Rightarrow> int \<Rightarrow> int list" where
  "spec_ascending s b c = (if 0 < c \<and> s < b then s # spec_ascending (s + c) b c else [])"
  by pat_completeness auto
termination
  by (relation "measure (\<lambda>(s, b, c). nat (b - s))") auto

function spec_descending :: "int \<Rightarrow> int \<Rightarrow> int \<Rightarrow> int list" where
  "spec_descending s b c = (if c < 0 \<and> b < s then s # spec_descending (s + c) b c else [])"
  by pat_completeness auto
termination
  by (relation "measure (\<lambda>(s, b, c). nat (s - b))") auto

declare spec_ascending.simps [simp del] spec_descending.simps [simp del]

definition spec_range :: "int \<Rightarrow> int \<Rightarrow> int \<Rightarrow> int list" where
  "spec_range a b c = (if a < b then spec_ascending a b c else spec_descending a b c)"

section \<open>Results\<close>

text \<open>
  What a call can do: return a value (\<open>Some (Inr v)\<close>), throw (\<open>Some (Inl e)\<close>), or
  never return (\<open>None\<close>), which a call does that spreads a generator without end.
\<close>

type_synonym 'a result = "(error + 'a) option"

definition returns :: "'a \<Rightarrow> 'a result" where
  "returns v = Some (Inr v)"

definition throws :: "error \<Rightarrow> 'a result" where
  "throws e = Some (Inl e)"

fun and_then :: "'a result \<Rightarrow> ('a \<Rightarrow> 'b result) \<Rightarrow> 'b result" where
  "and_then None f = None"
| "and_then (Some (Inl e)) f = Some (Inl e)"
| "and_then (Some (Inr v)) f = f v"

text \<open>
  A loop \<open>for (const x of xs) values.push(...f(x))\<close>: the values of every element, in
  order; the first element that throws or never returns ends the loop.
\<close>

fun push_each :: "('a \<Rightarrow> number list result) \<Rightarrow> 'a list \<Rightarrow> number list result" where
  "push_each f [] = returns []"
| "push_each f (x # xs) =
     and_then (f x) (\<lambda>vs. and_then (push_each f xs) (\<lambda>ws. returns (vs @ ws)))"

section \<open>Strings, sets and sorting of the language\<close>

text \<open>
  Strings are lists of 8-bit code units. \<open>toLowerCase\<close> maps the capital letters of
  that range (\<open>A\<close> to \<open>Z\<close>, and \<open>0xC0\<close> to \<open>0xDE\<close> but \<open>0xD7\<close>) 32 places up.
\<close>

definition lower_char :: "char \<Rightarrow> char" where
  "lower_char c =
     (let n = (of_char c :: nat)
      in if (65 \<le> n \<and> n \<le> 90) \<or> (192 \<le> n \<and> n \<le> 222 \<and> n \<noteq> 215)
         then char_of (n + 32) else c)"

definition toLowerCase :: "string \<Rightarrow> string" where
  "toLowerCase s = map lower_char s"

text \<open>\<open>s.substring(0, n)\<close>\<close>

definition substring0 :: "nat \<Rightarrow> string \<Rightarrow> string" where
  "substring0 n s = take n s"

text \<open>\<open>xs.indexOf(x)\<close>: the first index of \<open>x\<close>, or \<open>-1\<close>.\<close>

fun indexOf :: "'a list \<Rightarrow> 'a \<Rightarrow> int" where
  "indexOf [] x = - 1"
| "indexOf (y # ys) x =
     (if y = x then 0 else (let i = indexOf ys x in if i < 0 then - 1 else i + 1))"

text \<open>
  \<open>[...new Set(xs)]\<close>: a \<open>Set\<close> keeps its elements in the order they were first
  added.
\<close>

fun Set_add :: "'a list \<Rightarrow> 'a \<Rightarrow> 'a list" where
  "Set_add s x = (if x \<in> set s then s else s @ [x])"

definition Set_of :: "'a list \<Rightarrow> 'a list" where
  "Set_of xs = foldl Set_add [] xs"

text \<open>
  \<open>String(x)\<close> of a number, which the default sort compares by. The decimal digits are
  what the engine prints for an integer below \<open>10 ^ 21\<close> in magnitude; from there on it
  prints an exponent, which no list sorted here comes near.
\<close>

fun decimal_digits :: "nat \<Rightarrow> string" where
  "decimal_digits n =
     (if n < 10 then [''0123456789'' ! n]
      else decimal_digits (n div 10) @ [''0123456789'' ! (n mod 10)])"

declare decimal_digits.simps [simp del]

fun ToString :: "number \<Rightarrow> string" where
  "ToString NaN = ''NaN''"
| "ToString PosInfinity = ''Infinity''"
| "ToString NegInfinity = ''-Infinity''"
| "ToString (Fin i) =
     (if i < 0 then CHR ''-'' # decimal_digits (nat (- i)) else decimal_digits (nat i))"

text \<open>\<open>a < b\<close> on strings: by code units, a proper prefix first.\<close>

fun string_lt :: "string \<Rightarrow> string \<Rightarrow> bool" where
  "string_lt [] [] = False"
| "string_lt [] (y # ys) = True"
| "string_lt (x # xs) [] = False"
| "string_lt (x # xs) (y # ys) =
     ((of_char x :: nat) < of_char y \<or> (x = y \<and> string_lt xs ys))"

text \<open>
  \<open>xs.sort()\<close> with no comparator: the elements are compared as strings. The sort is
  stable, so the result is that of an insertion sort which leaves equal keys in their
  order.
\<close>

fun sort_insert :: "number \<Rightarrow> number list \<Rightarrow> number list" where
  "sort_insert x [] = [x]"
| "sort_insert x (y # ys) =
     (if string_lt (ToString y) (ToString x) then y # sort_insert x ys else x # y # ys)"

fun js_sort :: "number list \<Rightarrow> number list" where
  "js_sort [] = []"
| "js_sort (x # xs) = sort_insert x (js_sort xs)"

text \<open>
  \<open>Number(s)\<close> of a string: white space around the text is dropped; the empty text is
  \<open>0\<close>; a text of decimal digits, with a sign or without, is its value, rounded to a
  double; \<open>Infinity\<close> with a sign or without is that infinity. A text with a decimal
  point, an exponent or a radix prefix denotes a number too, but no text of the trees
  below has one, and this definition says \<open>NaN\<close> for it as for every other text.
\<close>

definition is_space :: "char \<Rightarrow> bool" where
  "is_space c = ((of_char c :: nat) \<in> {9, 10, 11, 12, 13, 32, 160})"

definition trim :: "string \<Rightarrow> string" where
  "trim s = rev (dropWhile is_space (rev (dropWhile is_space s)))"

definition is_digit :: "char \<Rightarrow> bool" where
  "is_digit c = (48 \<le> (of_char c :: nat) \<and> (of_char c :: nat) \<le> 57)"

definition decimal_value :: "string \<Rightarrow> int" where
  "decimal_value ds = foldl (\<lambda>v c. 10 * v + (int (of_char c) - 48)) 0 ds"

definition unsigned_Number :: "string \<Rightarrow> number" where
  "unsigned_Number t =
     (if t = ''Infinity'' then PosInfinity
      else if t \<noteq> [] \<and> list_all is_digit t then round_to_double (decimal_value t)
      else NaN)"

definition negate :: "number \<Rightarrow> number" where
  "negate x = (case x of NaN \<Rightarrow> NaN | NegInfinity \<Rightarrow> PosInfinity
     | Fin i \<Rightarrow> Fin (- i) | PosInfinity \<Rightarrow> NegInfinity)"

definition Number :: "string \<Rightarrow> number" where
  "Number s =
     (case trim s of
        [] \<Rightarrow> Fin 0
      | c # cs \<Rightarrow>
          if c = CHR ''-'' then negate (unsigned_Number cs)
          else if c = CHR ''+'' then unsigned_Number cs
          else unsigned_Number (c # cs))"

section \<open>Parse trees\<close>

text \<open>
  A token of the parser (\<open>IToken\<close> of the ebnf package): its rule name, the text it
  matched and its children. The parser is not part of the program; the trees below are
  its input.
\<close>

datatype IToken = IToken (type': string) (text': string) (children: "IToken list")

text \<open>
  A token also has a \<open>parent\<close> link. Only \<open>expandTimeUnitSpecEntry\<close> follows it, so
  the functions that do not are given the token alone, and the others a token in its
  tree: the chain of its ancestors, the parent first, and the token. The children of a
  token in its tree have that token as parent.
\<close>

type_synonym node = "IToken list \<times> IToken"

definition token :: "node \<Rightarrow> IToken" where
  "token n = snd n"

definition parent :: "node \<Rightarrow> node option" where
  "parent n = (case fst n of [] \<Rightarrow> None | p # ps \<Rightarrow> Some (ps, p))"

definition child_nodes :: "node \<Rightarrow> node list" where
  "child_nodes n = map (\<lambda>c. (snd n # fst n, c)) (children (snd n))"

text \<open>
  \<open>findChildrenByType\<close> of the ebnf package's semantic helpers: the children of the
  token that have the type.
\<close>

definition findChildrenByType :: "node \<Rightarrow> string \<Rightarrow> node list" where
  "findChildrenByType n ty = filter (\<lambda>c. type' (token c) = ty) (child_nodes n)"

section \<open>The expanders (index)\<close>

definition SPECIAL_EXPRESSION_EXPANSION_MAP :: "(string \<times> string) list" where
  "SPECIAL_EXPRESSION_EXPANSION_MAP =
     [(''minutely'', ''*-*-* *:*:00''),
      (''hourly'', ''*-*-* *:00:00''),
      (''daily'', ''*-*-* 00:00:00''),
      (''weekly'', ''Mon *-*-* 00:00:00''),
      (''monthly'', ''*-*-1 00:00:00''),
      (''quarterly'', ''*-1,4,7,10-1 00:00:00''),
      (''semiannually'', ''*-1,7-1 00:00:00''),
      (''yearly'', ''*-1-1 00:00:00''),
      (''annually'', ''*-1-1 00:00:00'')]"

definition SHORT_DAY_NAMES :: "string list" where
  "SHORT_DAY_NAMES = [''mon'', ''tue'', ''wed'', ''thu'', ''fri'', ''sat'', ''sun'']"

text \<open>
  The assertions. Each either passes (\<open>None\<close>) or throws the error it returns.
\<close>

definition assertTokenType :: "IToken \<Rightarrow> string \<Rightarrow> error option" where
  "assertTokenType tokens expectedType =
     (if type' tokens \<noteq> expectedType
      then Some (UnexpectedTokenTypeError expectedType (type' tokens)) else None)"

definition assertChildrenLengthEQ :: "IToken \<Rightarrow> nat \<Rightarrow> error option" where
  "assertChildrenLengthEQ tokens expected =
     (if length (children tokens) \<noteq> expected
      then Some (UnexpectedChildrenError (decimal_digits expected) (length (children tokens)))
      else None)"

definition assertChildrenLengthGEQ :: "IToken \<Rightarrow> nat \<Rightarrow> error option" where
  "assertChildrenLengthGEQ tokens minimum =
     (if length (children tokens) < minimum
      then Some (UnexpectedChildrenError (''at least '' @ decimal_digits minimum)
                  (length (children tokens)))
      else None)"

definition assertChildrenLengthLEQ :: "IToken \<Rightarrow> nat \<Rightarrow> error option" where
  "assertChildrenLengthLEQ tokens maximum =
     (if maximum < length (children tokens)
      then Some (UnexpectedChildrenError (''at most '' @ decimal_digits maximum)
                  (length (children tokens)))
      else None)"

text \<open>A statement that may throw, and what runs after it when it does not.\<close>

fun checked :: "error option \<Rightarrow> 'a result \<Rightarrow> 'a result" where
  "checked (Some e) r = throws e"
| "checked None r = r"

fun extractTextForType :: "IToken \<Rightarrow> string \<Rightarrow> string list" where
  "extractTextForType (IToken ty tx cs) t =
     (if ty = t then [tx] else []) @ concat (map (\<lambda>c. extractTextForType c t) cs)"

text \<open>
  \<open>expandSpecialExpression\<close>: \<open>Map.get\<close> gives \<open>undefined\<close> (\<open>None\<close>) for a text that
  is no key.
\<close>

definition expandSpecialExpression :: "IToken \<Rightarrow> string option result" where
  "expandSpecialExpression tokens =
     checked (assertTokenType tokens ''SpecialExpressions'')
       (checked (assertChildrenLengthLEQ tokens 0)
          (returns (map_of SPECIAL_EXPRESSION_EXPANSION_MAP (text' tokens))))"

definition parseDayOfTheWeek :: "IToken \<Rightarrow> number list result" where
  "parseDayOfTheWeek tokens =
     checked (assertTokenType tokens ''DayOfTheWeek'')
       (let days = extractTextForType tokens ''DayOfTheWeek'';
            uniqueDays = Set_of (map (\<lambda>day. substring0 3 (toLowerCase day)) days)
        in returns (map (\<lambda>day. Fin (indexOf SHORT_DAY_NAMES day)) uniqueDays))"

text \<open>
  \<open>xs[0]\<close>: the first element, or \<open>undefined\<close>. The value is only compared, added to
  and given to \<open>range\<close>, where \<open>undefined\<close> acts as \<open>NaN\<close>.
\<close>

definition first_element :: "number list \<Rightarrow> number" where
  "first_element xs = (case xs of [] \<Rightarrow> NaN | x # _ \<Rightarrow> x)"

definition parseRangedWeekDaySpec :: "IToken \<Rightarrow> number list result" where
  "parseRangedWeekDaySpec tokens =
     checked (assertTokenType tokens ''RangedWeekDaySpec'')
       (checked (assertChildrenLengthEQ tokens 2)
          (and_then (parseDayOfTheWeek (children tokens ! 0)) (\<lambda>first.
           and_then (parseDayOfTheWeek (children tokens ! 1)) (\<lambda>second.
             let firstDay = first_element first; secondDay = first_element second
             in if js_lt secondDay firstDay
                then throws (Error ''Systemd starts weeks on Monday'')
                else spread (range [firstDay, js_add secondDay (Fin 1)])))))"

fun parseWeekDaySpecEntry_child :: "IToken \<Rightarrow> number list result" where
  "parseWeekDaySpecEntry_child tok =
     (if type' tok = ''RangedWeekDaySpec'' then parseRangedWeekDaySpec tok
      else if type' tok = ''DayOfTheWeek'' then parseDayOfTheWeek tok
      else throws (UnexpectedTokenTypeError ''RangedWeekDaySpec|DayOfTheWeek'' (type' tok)))"

definition parseWeekDaySpecEntry :: "IToken \<Rightarrow> number list result" where
  "parseWeekDaySpecEntry tokens =
     checked (assertTokenType tokens ''WeekDaySpecEntry'')
       (checked (assertChildrenLengthGEQ tokens 1)
          (push_each parseWeekDaySpecEntry_child (children tokens)))"

definition expandWeekDaySpec :: "IToken \<Rightarrow> number list result" where
  "expandWeekDaySpec tokens =
     checked (assertTokenType tokens ''WeekDaySpec'')
       (checked (assertChildrenLengthGEQ tokens 0)
          (and_then (push_each parseWeekDaySpecEntry (children tokens)) (\<lambda>days.
             returns (js_sort (Set_of days)))))"

text \<open>The maximum value these token types can have.\<close>

definition tokenTypeToMaximumValue :: "(string \<times> number) list" where
  "tokenTypeToMaximumValue =
     [(''Month'', Fin 12), (''Day'', Fin 31), (''Hour'', Fin 24), (''Minute'', Fin 60),
      (''Second'', Fin 61)]"

text \<open>
  \<open>tok.children[i]!.text\<close>: reading \<open>text\<close> of a child that is not there throws the
  engine's \<open>TypeError\<close>.
\<close>

definition child_text :: "IToken \<Rightarrow> nat \<Rightarrow> string result" where
  "child_text tok i =
     (if i < length (children tok) then returns (text' (children tok ! i))
      else throws UndefinedAccess)"

text \<open>
  The \<open>switch (endToken.type)\<close> of a ranged time unit: the end and the step of
  \<open>1..3\<close> or \<open>1..3/2\<close>.
\<close>

definition ranged_end :: "IToken \<Rightarrow> (number \<times> number) result" where
  "ranged_end endToken =
     (if type' endToken = ''RepeatedTimeUnit''
      then and_then (child_text endToken 0) (\<lambda>e.
           and_then (child_text endToken 1) (\<lambda>c. returns (Number e, Number c)))
      else if type' endToken = ''TimeUnitNoWildcard''
      then returns (Number (text' endToken), Fin 1)
      else throws (RangeError ''Invalid end value for RangedTimeUnit''))"

text \<open>The \<open>switch (child.type)\<close> in the loop of \<open>expandTimeUnitSpecEntry\<close>.\<close>

definition expandTimeUnitSpecEntry_child :: "number \<Rightarrow> IToken \<Rightarrow> number list result" where
  "expandTimeUnitSpecEntry_child maxEndValue child =
     (if type' child = ''RangedTimeUnit''
      then checked (assertChildrenLengthEQ child 2)
             (let start = Number (text' (children child ! 0))
              in and_then (ranged_end (children child ! 1)) (\<lambda>(end, step).
                   spread (range [start, Math_min end maxEndValue, step])))
      else if type' child = ''RepeatedTimeUnit''
      then and_then (child_text child 0) (\<lambda>a.
           and_then (child_text child 1) (\<lambda>c.
             spread (range [Number a, maxEndValue, Number c])))
      else if type' child = ''TimeUnit''
      then (case children child of
              [] \<Rightarrow> throws UndefinedAccess
            | grandchildToken # _ \<Rightarrow>
                if type' grandchildToken = ''TimeUnitNoWildcard''
                then returns [Number (text' grandchildToken)]
                else throws (Error ''TODO''))
      else throws (TypeError ''Not a TimeUnitSpecEntry''))"

text \<open>
  \<open>expandTimeUnitSpecEntry\<close>: \<open>token.parent.parent.type\<close> names the field; a type
  with no maximum in the table throws.
\<close>

definition expandTimeUnitSpecEntry :: "node \<Rightarrow> number list result" where
  "expandTimeUnitSpecEntry n =
     checked (assertTokenType (token n) ''TimeUnitSpecEntry'')
       (case parent n of
          None \<Rightarrow> throws UndefinedAccess
        | Some p \<Rightarrow>
            (case parent p of
               None \<Rightarrow> throws UndefinedAccess
             | Some gp \<Rightarrow>
                 (let parentType = type' (token gp)
                  in case map_of tokenTypeToMaximumValue parentType of
                       None \<Rightarrow>
                         throws (TypeError (''Unknown '' @ parentType @ '' not in [object Map]''))
                     | Some maxEndValue \<Rightarrow>
                         push_each (expandTimeUnitSpecEntry_child maxEndValue)
                           (children (token n)))))"

definition expandTimeUnitSpec_token :: "node \<Rightarrow> number list result" where
  "expandTimeUnitSpec_token n =
     checked (assertTokenType (token n) ''TimeUnitSpec'')
       (checked (assertChildrenLengthGEQ (token n) 1)
          (push_each expandTimeUnitSpecEntry (child_nodes n)))"

definition expandTimeUnitSpec :: "node list \<Rightarrow> number list result" where
  "expandTimeUnitSpec tokens =
     and_then (push_each expandTimeUnitSpec_token tokens) (\<lambda>values.
       returns (js_sort (Set_of values)))"

record DateIterator =
  years :: range_gen
  months :: "number list"
  dates :: "number list"

text \<open>
  The generator \<open>years\<close> inside \<open>expandDateSpec\<close> hands its three parameters to
  \<open>range\<close> and yields what \<open>range\<close> yields.
\<close>

definition years_generator :: "number \<Rightarrow> number \<Rightarrow> number \<Rightarrow> range_gen" where
  "years_generator start stop step = range [start, stop, step]"

text \<open>
  \<open>expandDateSpec\<close>. The tokens of the year are looked up and not used; \<open>years()\<close> is
  called with no argument, so its three parameters are \<open>undefined\<close>, which \<open>Number\<close>
  in \<open>range\<close> turns into \<open>NaN\<close>. \<open>xs[0]!.children\<close> of an empty \<open>xs\<close> throws.
\<close>

definition expandDateSpec :: "node \<Rightarrow> DateIterator result" where
  "expandDateSpec tokens =
     checked (assertTokenType (token tokens) ''DateSpec'')
       (checked (assertChildrenLengthGEQ (token tokens) 1)
          (case findChildrenByType tokens ''Year'' of
             [] \<Rightarrow> throws UndefinedAccess
           | yearToken # _ \<Rightarrow>
               (case findChildrenByType tokens ''Month'' of
                  [] \<Rightarrow> throws UndefinedAccess
                | monthToken # _ \<Rightarrow>
                    (case findChildrenByType tokens ''Day'' of
                       [] \<Rightarrow> throws UndefinedAccess
                     | dayToken # _ \<Rightarrow>
                         and_then (expandTimeUnitSpec (child_nodes monthToken)) (\<lambda>ms.
                         and_then (expandTimeUnitSpec (child_nodes dayToken)) (\<lambda>ds.
                           returns \<lparr>years = years_generator NaN NaN NaN,
                                    months = ms, dates = ds\<rparr>))))))"

text \<open>
  \<open>getNext\<close>. A \<open>Date\<close> is its time value, the milliseconds since the epoch. The
  function returns \<open>new Date()\<close>: \<open>now\<close> is what the clock says at that moment.
\<close>

type_synonym Date = int

definition getNext :: "Date \<Rightarrow> IToken \<Rightarrow> Date \<Rightarrow> Date result" where
  "getNext now tokens referenceDate =
     checked (assertTokenType tokens ''FullCalendarSpec'') (returns now)"

section \<open>Parse trees of the examples\<close>

text \<open>
  The grammar is not among the sources. The trees below have the shape the expanders
  walk: the rule names they test for, in the nesting they follow.
\<close>

definition leaf :: "string \<Rightarrow> string \<Rightarrow> IToken" where
  "leaf ty tx = IToken ty tx []"

definition day :: "string \<Rightarrow> IToken" where
  "day tx = IToken ''WeekDaySpecEntry'' tx [leaf ''DayOfTheWeek'' tx]"

definition day_range :: "string \<Rightarrow> string \<Rightarrow> IToken" where
  "day_range a b =
     IToken ''WeekDaySpecEntry'' (a @ ''..'' @ b)
       [IToken ''RangedWeekDaySpec'' (a @ ''..'' @ b)
          [leaf ''DayOfTheWeek'' a, leaf ''DayOfTheWeek'' b]]"

text \<open>\<open>Sat,Thu,Mon..Wed,Sat..Sun\<close>\<close>

definition weekdays_example :: IToken where
  "weekdays_example =
     IToken ''WeekDaySpec'' ''Sat,Thu,Mon..Wed,Sat..Sun''
       [day ''Sat'', day ''Thu'', day_range ''Mon'' ''Wed'', day_range ''Sat'' ''Sun'']"

text \<open>\<open>sun..tue\<close>\<close>

definition sun_tue :: IToken where
  "sun_tue = IToken ''WeekDaySpec'' ''sun..tue'' [day_range ''sun'' ''tue'']"

text \<open>A single value of a time unit, as \<open>12\<close>.\<close>

definition unit_value :: "string \<Rightarrow> IToken" where
  "unit_value tx =
     IToken ''TimeUnitSpecEntry'' tx [IToken ''TimeUnit'' tx [leaf ''TimeUnitNoWildcard'' tx]]"

text \<open>A range of a time unit, as \<open>1..3\<close>.\<close>

definition unit_range :: "string \<Rightarrow> string \<Rightarrow> IToken" where
  "unit_range a b =
     IToken ''TimeUnitSpecEntry'' (a @ ''..'' @ b)
       [IToken ''RangedTimeUnit'' (a @ ''..'' @ b)
          [leaf ''TimeUnitNoWildcard'' a, leaf ''TimeUnitNoWildcard'' b]]"

text \<open>A stepped range of a time unit, as \<open>1..5/2\<close>.\<close>

definition unit_stepped_range :: "string \<Rightarrow> string \<Rightarrow> string \<Rightarrow> IToken" where
  "unit_stepped_range a b c =
     IToken ''TimeUnitSpecEntry'' (a @ ''..'' @ b @ ''/'' @ c)
       [IToken ''RangedTimeUnit'' (a @ ''..'' @ b @ ''/'' @ c)
          [leaf ''TimeUnitNoWildcard'' a,
           IToken ''RepeatedTimeUnit'' (b @ ''/'' @ c)
             [leaf ''TimeUnitNoWildcard'' b, leaf ''TimeUnitNoWildcard'' c]]]"

text \<open>A field of a date or a time, as the month \<open>12\<close>, with the entries of its spec.\<close>

definition field :: "string \<Rightarrow> string \<Rightarrow> IToken list \<Rightarrow> IToken" where
  "field ty tx entries = IToken ty tx [IToken ''TimeUnitSpec'' tx entries]"

text \<open>An entry in its tree: the only entry of the field \<open>ty\<close>.\<close>

definition entry_in_field :: "string \<Rightarrow> IToken \<Rightarrow> node" where
  "entry_in_field ty entry =
     ([IToken ''TimeUnitSpec'' (text' entry) [entry], field ty (text' entry) [entry]], entry)"

text \<open>The specs of a field in their tree, as \<open>expandDateSpec\<close> hands them on.\<close>

definition specs_of_field :: "IToken \<Rightarrow> node list" where
  "specs_of_field f = child_nodes ([], f)"

text \<open>\<open>2025-12-25\<close>, below the root of its tree.\<close>

definition date_example_spec :: IToken where
  "date_example_spec =
     IToken ''DateSpec'' ''2025-12-25''
       [field ''Year'' ''2025'' [unit_value ''2025''],
        field ''Month'' ''12'' [unit_value ''12''],
        field ''Day'' ''25'' [unit_value ''25'']]"

definition date_example :: node where
  "date_example =
     ([IToken ''FullCalendarSpec'' ''2025-12-25'' [date_example_spec]], date_example_spec)"

text \<open>\<open>hourly America/Chicago\<close>\<close>

definition hourly_example :: IToken where
  "hourly_example =
     IToken ''FullCalendarSpec'' ''hourly America/Chicago''
       [leaf ''SpecialExpressions'' ''hourly'', leaf ''Timezone'' ''America/Chicago'']"

text \<open>
  The instants of the example: \<open>2025-12-25T16:00:00-05:00\<close> and
  \<open>2025-12-25T17:00:00-05:00\<close>.
\<close>

definition reference_instant :: Date where
  "reference_instant = 1766696400000"

definition expected_instant :: Date where
  "expected_instant = 1766700000000"

section \<open>Day names and messages\<close>

text \<open>
  Modelled from the spec: the grammar (\<open>Grammars/systemd_calendar\<close>) is not among the
  sources. Of the text of a \<open>DayOfTheWeek\<close> token the specification says that it is
  "a single day name (case-insensitive, accepted in full or 3-letter abbreviated form)",
  with the "canonical index mapping: Monday=0 ... Sunday=6".
\<close>

definition DAY_NAMES :: "string list" where
  "DAY_NAMES =
     [''monday'', ''tuesday'', ''wednesday'', ''thursday'', ''friday'', ''saturday'',
      ''sunday'']"

definition is_day_name :: "string \<Rightarrow> bool" where
  "is_day_name s = (toLowerCase s \<in> set DAY_NAMES \<or> toLowerCase s \<in> set SHORT_DAY_NAMES)"

definition canonical_index :: "string \<Rightarrow> int" where
  "canonical_index s =
     (if toLowerCase s \<in> set DAY_NAMES then indexOf DAY_NAMES (toLowerCase s)
      else indexOf SHORT_DAY_NAMES (toLowerCase s))"

text \<open>
  The index \<open>parseDayOfTheWeek(tok)[0]\<close> of a \<open>DayOfTheWeek\<close> token: that of its own
  text, which is the first text \<open>extractTextForType\<close> finds.
\<close>

definition day_index :: "IToken \<Rightarrow> int" where
  "day_index tok = indexOf SHORT_DAY_NAMES (substring0 3 (toLowerCase (text' tok)))"

text \<open>A message mentions a text when the text occurs in it.\<close>

fun mentions :: "string \<Rightarrow> string \<Rightarrow> bool" where
  "mentions [] sub = (sub = [])"
| "mentions (c # cs) sub = (take (length sub) (c # cs) = sub \<or> mentions cs sub)"

section \<open>Rounding\<close>

lemma bit_length_bounds: "0 < n \<Longrightarrow> 2 ^ (bit_length n - 1) \<le> n \<and> n < 2 ^ bit_length n"
proof (induction n rule: bit_length.induct)
  case (1 n)
  show ?case
  proof (cases "n div 2 = 0")
    case True
    with 1(2) have "n = 1" by presburger
    then show ?thesis by (simp add: bit_length.simps)
  next
    case False
    then have h: "0 < n div 2" by simp
    from 1(1)[OF _ h] 1(2)
    have ih: "2 ^ (bit_length (n div 2) - 1) \<le> n div 2" "n div 2 < 2 ^ bit_length (n div 2)"
      by auto
    have pos: "0 < bit_length (n div 2)" using h by (subst bit_length.simps) simp
    have eq: "bit_length n = Suc (bit_length (n div 2))" using 1(2) by (subst bit_length.simps) simp
    have "2 * 2 ^ (bit_length (n div 2) - 1) \<le> n" using ih(1) by linarith
    moreover have "2 * 2 ^ (bit_length (n div 2) - 1) = (2::nat) ^ bit_length (n div 2)"
      using pos by (cases "bit_length (n div 2)") auto
    moreover have "n < 2 * 2 ^ bit_length (n div 2)" using ih(2) by linarith
    ultimately show ?thesis by (simp add: eq)
  qed
qed

lemma round_to_double_exact: "\<bar>x\<bar> \<le> 2 ^ 53 \<Longrightarrow> round_to_double x = Fin x"
  by (simp add: round_to_double_def)

lemma round_to_double_above:
  assumes "2 ^ 53 < x"
  shows "round_to_double x = PosInfinity \<or> (\<exists>y. 2 ^ 53 \<le> y \<and> round_to_double x = Fin y)"
proof -
  define n where "n = nat x"
  define e where "e = bit_length n - 53"
  have npos: "0 < n" and xn: "x = int n" using assms by (auto simp: n_def)
  from bit_length_bounds[OF npos]
  have lo: "2 ^ (bit_length n - 1) \<le> n" and hi: "n < 2 ^ bit_length n" by auto
  have "(2::nat) ^ 53 < 2 ^ bit_length n"
  proof -
    have "(2::int) ^ 53 < int n" using assms xn by simp
    then have "(2::nat) ^ 53 < n" by (metis of_nat_less_iff of_nat_numeral of_nat_power)
    with hi show ?thesis by linarith
  qed
  then have bl: "53 < bit_length n" by (intro power_less_imp_less_exp[of 2]) simp_all
  then have e1: "1 \<le> e" and ble: "bit_length n - 1 = 52 + e" by (auto simp: e_def)
  have "(2::int) ^ (52 + e) \<le> x"
  proof -
    have "int (2 ^ (52 + e)) \<le> int n" using lo ble by (metis of_nat_le_iff)
    then show ?thesis by (simp add: xn)
  qed
  then have "(2::int) ^ 52 * 2 ^ e \<le> x" by (simp add: power_add)
  then have q: "(2::int) ^ 52 \<le> x div 2 ^ e"
    by (metis zero_less_numeral zero_less_power pos_imp_zdiv_pos_iff zdiv_mono1 nonzero_mult_div_cancel_right
        power_not_zero zero_neq_numeral)
  have two: "(2::int) \<le> 2 ^ e" using e1 by (metis power_increasing one_le_numeral power_one_right)
  have base: "(2::int) ^ 53 \<le> (x div 2 ^ e) * 2 ^ e"
  proof -
    have "(2::int) ^ 52 * 2 \<le> (x div 2 ^ e) * 2 ^ e"
      using q two by (intro mult_mono) auto
    then show ?thesis by simp
  qed
  have base': "(2::int) ^ 53 \<le> (x div 2 ^ e + 1) * 2 ^ e"
  proof -
    have "(x div 2 ^ e) * 2 ^ e \<le> (x div 2 ^ e + 1) * (2::int) ^ e"
      by (intro mult_right_mono) auto
    with base show ?thesis by linarith
  qed
  have ax: "\<bar>x\<bar> = x" "\<not> x < 0" "\<not> x \<le> 2 ^ 53" using assms by auto
  show ?thesis
    unfolding round_to_double_def Let_def ax
    using base base' assms by (auto simp: e_def[symmetric] n_def[symmetric])
qed

lemma round_to_double_uminus: "round_to_double (- x) = (case round_to_double x of
    NaN \<Rightarrow> NaN | NegInfinity \<Rightarrow> PosInfinity | PosInfinity \<Rightarrow> NegInfinity | Fin y \<Rightarrow> Fin (- y))"
  by (cases "x = 0") (auto simp: round_to_double_def Let_def)

lemma round_to_double_below:
  assumes "x < - (2 ^ 53)"
  shows "round_to_double x = NegInfinity \<or> (\<exists>y. y \<le> - (2 ^ 53) \<and> round_to_double x = Fin y)"
proof -
  have "2 ^ 53 < - x" using assms by simp
  from round_to_double_above[OF this] show ?thesis
    unfolding round_to_double_uminus by (auto split: number.splits)
qed

lemma round_to_double_tie: "round_to_double (2 ^ 53 + 1) = Fin (2 ^ 53)"
  by (simp add: round_to_double_def Let_def bit_length.simps)

section \<open>The sequencer on integers that doubles hold exactly\<close>

lemma js_lt_round_stop:
  assumes "b \<le> x" "- (2 ^ 53) \<le> x" "b \<le> 2 ^ 53"
  shows "\<not> js_lt (round_to_double x) (Fin b)"
proof (cases "x \<le> 2 ^ 53")
  case True
  then have "round_to_double x = Fin x" using assms by (intro round_to_double_exact) simp
  then show ?thesis using assms by simp
next
  case False
  then have "2 ^ 53 < x" by simp
  from round_to_double_above[OF this] show ?thesis using assms by auto
qed

lemma ascending_loop_spread:
  assumes "0 < c" "- (2 ^ 53) \<le> s" "s < b" "b \<le> 2 ^ 53"
  shows "spread (AscendingLoop (Fin s) (Fin b) (Fin c)) =
    Some (Inr (map Fin (spec_ascending (s + c) b c)))"
  using assms
proof (induction "nat (b - s)" arbitrary: s rule: less_induct)
  case less
  show ?case
  proof (cases "s + c < b")
    case True
    then have ex: "round_to_double (s + c) = Fin (s + c)"
      using less.prems by (intro round_to_double_exact) simp
    have ih: "spread (AscendingLoop (Fin (s + c)) (Fin b) (Fin c)) =
      Some (Inr (map Fin (spec_ascending (s + c + c) b c)))"
      using less.prems True by (intro less.hyps) auto
    have un: "spec_ascending (s + c) b c = (s + c) # spec_ascending (s + c + c) b c"
      using True less.prems by (subst spec_ascending.simps) simp
    show ?thesis
      by (subst spread.simps) (simp add: ex ascending_test_def True ih un)
  next
    case False
    then have "\<not> js_lt (round_to_double (s + c)) (Fin b)"
      using less.prems by (intro js_lt_round_stop) auto
    moreover have "spec_ascending (s + c) b c = []"
      using False by (subst spec_ascending.simps) simp
    ultimately show ?thesis using less.prems
      by (subst spread.simps)
         (simp add: ascending_test_def descending_block_def js_gt_def)
  qed
qed

lemma js_gt_round_stop:
  assumes "x \<le> b" "x \<le> 2 ^ 53" "- (2 ^ 53) \<le> b"
  shows "\<not> js_gt (round_to_double x) (Fin b)"
proof (cases "- (2 ^ 53) \<le> x")
  case True
  then have "round_to_double x = Fin x" using assms by (intro round_to_double_exact) simp
  then show ?thesis using assms by (simp add: js_gt_def)
next
  case False
  then have "x < - (2 ^ 53)" by simp
  from round_to_double_below[OF this] show ?thesis using assms by (auto simp: js_gt_def)
qed

lemma descending_loop_spread:
  assumes "c < 0" "s \<le> 2 ^ 53" "b < s" "- (2 ^ 53) \<le> b"
  shows "spread (DescendingLoop (Fin s) (Fin b) (Fin c)) =
    Some (Inr (map Fin (spec_descending (s + c) b c)))"
  using assms
proof (induction "nat (s - b)" arbitrary: s rule: less_induct)
  case less
  show ?case
  proof (cases "b < s + c")
    case True
    then have ex: "round_to_double (s + c) = Fin (s + c)"
      using less.prems by (intro round_to_double_exact) simp
    have ih: "spread (DescendingLoop (Fin (s + c)) (Fin b) (Fin c)) =
      Some (Inr (map Fin (spec_descending (s + c + c) b c)))"
      using less.prems True by (intro less.hyps) auto
    have un: "spec_descending (s + c) b c = (s + c) # spec_descending (s + c + c) b c"
      using True less.prems by (subst spec_descending.simps) simp
    show ?thesis
      by (subst spread.simps) (simp add: ex descending_test_def js_gt_def True ih un)
  next
    case False
    then have "\<not> js_gt (round_to_double (s + c)) (Fin b)"
      using less.prems by (intro js_gt_round_stop) auto
    moreover have "spec_descending (s + c) b c = []"
      using False by (subst spec_descending.simps) simp
    ultimately show ?thesis using less.prems
      by (subst spread.simps) (simp add: descending_test_def)
  qed
qed

lemma range3_spread:
  assumes "\<bar>a\<bar> \<le> 2 ^ 53" "\<bar>b\<bar> \<le> 2 ^ 53"
  shows "spread (range [Fin a, Fin b, Fin c]) = Some (Inr (map Fin (spec_range a b c)))"
proof -
  consider (eq) "a = b" | (up) "a < b" "0 < c" | (up0) "a < b" "c \<le> 0"
    | (down) "b < a" "c < 0" | (down0) "b < a" "0 \<le> c" by linarith
  then show ?thesis
  proof cases
    case eq
    then show ?thesis
      by (subst spread.simps)
         (simp add: range_def range_body_def isNaN_def js_strict_eq_def spec_range_def
            spec_descending.simps)
  next
    case up
    have un: "spec_ascending a b c = a # spec_ascending (a + c) b c"
      using up by (subst spec_ascending.simps) simp
    have "spread (AscendingLoop (Fin a) (Fin b) (Fin c)) =
        Some (Inr (map Fin (spec_ascending (a + c) b c)))"
      using up assms by (intro ascending_loop_spread) auto
    then show ?thesis using up
      by (subst spread.simps)
         (simp add: range_def range_body_def isNaN_def js_strict_eq_def js_not_def
            ascending_test_def spec_range_def un)
  next
    case up0
    have "spec_ascending a b c = []" using up0 by (subst spec_ascending.simps) simp
    then show ?thesis using up0
      by (subst spread.simps)
         (auto simp add: range_def range_body_def isNaN_def js_strict_eq_def js_not_def
            spec_range_def)
  next
    case down
    have un: "spec_descending a b c = a # spec_descending (a + c) b c"
      using down by (subst spec_descending.simps) simp
    have "spread (DescendingLoop (Fin a) (Fin b) (Fin c)) =
        Some (Inr (map Fin (spec_descending (a + c) b c)))"
      using down assms by (intro descending_loop_spread) auto
    then show ?thesis using down
      by (subst spread.simps)
         (simp add: range_def range_body_def isNaN_def js_strict_eq_def js_not_def
            descending_block_def descending_test_def js_gt_def spec_range_def un)
  next
    case down0
    have "spec_descending a b c = []" using down0 by (subst spec_descending.simps) simp
    then show ?thesis using down0
      by (subst spread.simps)
         (auto simp add: range_def range_body_def isNaN_def js_strict_eq_def js_not_def
            descending_block_def js_gt_def spec_range_def)
  qed
qed

lemma spread_take_gen:
  "spread g = Some (Inr vs) \<Longrightarrow> take_gen n g = take n vs"
proof (induction n arbitrary: g vs)
  case 0
  then show ?case by simp
next
  case (Suc n)
  show ?case
  proof (cases "range_next g")
    case (Inl e)
    with Suc.prems show ?thesis by (subst (asm) spread.simps) simp
  next
    case (Inr p)
    obtain o' g' where p: "p = (o', g')" by (cases p)
    show ?thesis
    proof (cases o')
      case None
      with Suc.prems Inr p show ?thesis by (subst (asm) spread.simps) auto
    next
      case (Some v)
      with Suc.prems Inr p obtain ws where ws: "spread g' = Some (Inr ws)" "vs = v # ws"
        by (subst (asm) spread.simps) (auto split: Option.bind_splits sum.splits)
      from Suc.IH[OF ws(1)] show ?thesis using Inr p Some ws(2) by simp
    qed
  qed
qed

lemma spec_ascending_bounds: "x \<in> set (spec_ascending s b c) \<Longrightarrow> s \<le> x \<and> x < b"
proof (induction s b c rule: spec_ascending.induct)
  case (1 s b c)
  from 1(2) have "0 < c \<and> s < b" and "x = s \<or> x \<in> set (spec_ascending (s + c) b c)"
    by (subst (asm) spec_ascending.simps, simp split: if_splits)+
  with 1(1) show ?case by fastforce
qed

lemma spec_ascending_sorted: "sorted_wrt (<) (spec_ascending s b c)"
proof (induction s b c rule: spec_ascending.induct)
  case (1 s b c)
  show ?case
  proof (cases "0 < c \<and> s < b")
    case True
    with 1 have "sorted_wrt (<) (spec_ascending (s + c) b c)" by simp
    moreover have "\<forall>x\<in>set (spec_ascending (s + c) b c). s < x"
      using spec_ascending_bounds[of _ "s + c" b c] True by fastforce
    ultimately show ?thesis using True by (subst spec_ascending.simps) simp
  next
    case False
    then show ?thesis by (subst spec_ascending.simps) auto
  qed
qed

lemma spec_descending_bounds: "x \<in> set (spec_descending s b c) \<Longrightarrow> x \<le> s \<and> b < x"
proof (induction s b c rule: spec_descending.induct)
  case (1 s b c)
  from 1(2) have "c < 0 \<and> b < s" and "x = s \<or> x \<in> set (spec_descending (s + c) b c)"
    by (subst (asm) spec_descending.simps, simp split: if_splits)+
  with 1(1) show ?case by fastforce
qed

lemma spec_descending_sorted: "sorted_wrt (>) (spec_descending s b c)"
proof (induction s b c rule: spec_descending.induct)
  case (1 s b c)
  show ?case
  proof (cases "c < 0 \<and> b < s")
    case True
    with 1 have "sorted_wrt (>) (spec_descending (s + c) b c)" by simp
    moreover have "\<forall>x\<in>set (spec_descending (s + c) b c). x < s"
      using spec_descending_bounds[of _ "s + c" b c] True by fastforce
    ultimately show ?thesis using True by (subst spec_descending.simps) simp
  next
    case False
    then show ?thesis by (subst spec_descending.simps) auto
  qed
qed

section \<open>The sequencer where it does not end\<close>

lemma round_step_stuck:
  assumes "0 \<le> i" "i \<le> 2 ^ 53"
  shows "\<exists>j. 0 \<le> j \<and> j \<le> 2 ^ 53 \<and> round_to_double (i + 1) = Fin j"
proof (cases "i = 2 ^ 53")
  case True
  then show ?thesis using round_to_double_tie by auto
next
  case False
  then have "round_to_double (i + 1) = Fin (i + 1)"
    using assms by (intro round_to_double_exact) simp
  then show ?thesis using assms False by auto
qed

lemma counting_up_never_ends:
  assumes "spread g = Some r"
  shows "\<not> (\<exists>i. 0 \<le> i \<and> i \<le> 2 ^ 53 \<and> g = AscendingLoop (Fin i) PosInfinity (Fin 1))"
proof (rule spread.raw_induct[OF _ assms])
  fix spread' g r
  assume IH: "\<And>x y. spread' x = Some y \<Longrightarrow>
      \<not> (\<exists>i. 0 \<le> i \<and> i \<le> 2 ^ 53 \<and> x = AscendingLoop (Fin i) PosInfinity (Fin 1))"
    and step: "(case range_next g of Inl e \<Rightarrow> Some (Inl e)
      | Inr (None, g') \<Rightarrow> Some (Inr [])
      | Inr (Some v, g') \<Rightarrow>
          Option.bind (spread' g')
           (\<lambda>r. Some (case r of Inl e \<Rightarrow> Inl e | Inr vs \<Rightarrow> Inr (v # vs)))) = Some r"
  show "\<not> (\<exists>i. 0 \<le> i \<and> i \<le> 2 ^ 53 \<and> g = AscendingLoop (Fin i) PosInfinity (Fin 1))"
  proof
    assume "\<exists>i. 0 \<le> i \<and> i \<le> 2 ^ 53 \<and> g = AscendingLoop (Fin i) PosInfinity (Fin 1)"
    then obtain i where i: "0 \<le> i" "i \<le> 2 ^ 53" and g: "g = AscendingLoop (Fin i) PosInfinity (Fin 1)"
      by blast
    from round_step_stuck[OF i] obtain j where
      j: "0 \<le> j" "j \<le> 2 ^ 53" and rj: "round_to_double (i + 1) = Fin j" by blast
    from step obtain r' where nxt: "spread' (AscendingLoop (Fin j) PosInfinity (Fin 1)) = Some r'"
      by (auto simp: g rj ascending_test_def split: Option.bind_splits)
    have "\<exists>i. 0 \<le> i \<and> i \<le> 2 ^ 53 \<and>
        AscendingLoop (Fin j) PosInfinity (Fin 1) = AscendingLoop (Fin i) PosInfinity (Fin 1)"
      using j by blast
    with IH[OF nxt] show False by blast
  qed
qed

section \<open>Forms of the call, and calls that end at once\<close>

lemma spread_next_cong: "range_next g = range_next g' \<Longrightarrow> spread g = spread g'"
  by (simp add: spread.simps[of g] spread.simps[of g'])

lemma take_gen_next_cong: "range_next g = range_next g' \<Longrightarrow> take_gen n g = take_gen n g'"
  by (cases n) simp_all

lemma range_body_NaN:
  "range_body NaN b c = (None, Returned)"
  "range_body a NaN c = (None, Returned)"
  "range_body a b NaN = (None, Returned)"
  by (simp_all add: range_body_def isNaN_def)

lemma spread_ended: "range_next g = Inr (None, g') \<Longrightarrow> spread g = Some (Inr [])"
  by (simp add: spread.simps[of g])

lemma take_gen_ended: "range_next g = Inr (None, g') \<Longrightarrow> take_gen n g = []"
  by (cases n) simp_all

lemma range1_as_range3: "range_next (range [a]) = range_next (range [Fin 0, a, Fin 1])"
  by (simp add: range_def)

lemma range2_as_range3:
  "range_next (range [a, b]) = range_next (range [a, b, if js_lt a b then Fin 1 else Fin (- 1)])"
  by (simp add: range_def)

lemma spec_range_up:
  "0 < c \<Longrightarrow> sorted_wrt (<) (spec_range a b c) \<and> (\<forall>v\<in>set (spec_range a b c). v < b)"
  using spec_ascending_sorted[of a b c] spec_ascending_bounds[of _ a b c]
  by (auto simp: spec_range_def spec_descending.simps[of a b c])

lemma spec_range_down:
  "c < 0 \<Longrightarrow> sorted_wrt (>) (spec_range a b c) \<and> (\<forall>v\<in>set (spec_range a b c). b < v)"
  using spec_descending_sorted[of a b c] spec_descending_bounds[of _ a b c]
  by (auto simp: spec_range_def spec_ascending.simps[of a b c])

lemma sorted_wrt_map_Fin:
  "sorted_wrt js_lt (map Fin vs) = sorted_wrt (<) vs"
  "sorted_wrt js_gt (map Fin vs) = sorted_wrt (>) vs"
  by (simp_all add: sorted_wrt_map js_gt_def)

lemma spread_self_loop:
  assumes "range_next g = Inr (Some v, g)"
  shows "spread g = None"
proof (rule ccontr)
  assume "spread g \<noteq> None"
  then obtain r where r: "spread g = Some r" by blast
  have "g \<noteq> g"
  proof (rule spread.raw_induct[where P = "\<lambda>x y. x \<noteq> g", OF _ r])
    fix spread' h r'
    assume IH: "\<And>x y. spread' x = Some y \<Longrightarrow> x \<noteq> g"
      and step: "(case range_next h of Inl e \<Rightarrow> Some (Inl e)
        | Inr (None, g') \<Rightarrow> Some (Inr [])
        | Inr (Some v, g') \<Rightarrow>
            Option.bind (spread' g')
             (\<lambda>r. Some (case r of Inl e \<Rightarrow> Inl e | Inr vs \<Rightarrow> Inr (v # vs)))) = Some r'"
    show "h \<noteq> g"
    proof
      assume "h = g"
      with step assms obtain r'' where "spread' g = Some r''"
        by (auto split: Option.bind_splits)
      from IH[OF this] show False by simp
    qed
  qed
  then show False by simp
qed

lemma step_sign: "c \<noteq> NaN \<Longrightarrow> \<not> js_not c \<Longrightarrow> js_lt c (Fin 0) \<or> js_gt c (Fin 0)"
  by (cases c) (auto simp: js_not_def js_gt_def)

lemma descending_loop_values:
  "v \<in> set (take_gen n (DescendingLoop s b c)) \<Longrightarrow> js_gt v b"
proof (induction n arbitrary: s)
  case 0
  then show ?case by simp
next
  case (Suc n)
  then show ?case
    by (auto simp: descending_test_def split: if_splits)
qed

lemma ascending_loop_values:
  "js_gt c (Fin 0) \<Longrightarrow> v \<in> set (take_gen n (AscendingLoop s b c)) \<Longrightarrow> js_lt v b"
proof (induction n arbitrary: s)
  case 0
  then show ?case by simp
next
  case (Suc n)
  then show ?case
    by (auto simp: ascending_test_def descending_block_def split: if_splits)
qed

lemma range3_values:
  assumes "v \<in> set (take_gen n (range [a, b, c]))"
  shows "(js_gt c (Fin 0) \<and> js_lt v b) \<or> (js_lt c (Fin 0) \<and> js_gt v b)"
proof (cases n)
  case 0
  with assms show ?thesis by simp
next
  case (Suc m)
  show ?thesis
  proof (cases "isNaN a \<or> isNaN b \<or> isNaN c \<or> js_strict_eq a b \<or> js_not c")
    case True
    then have "range_body a b c = (None, Returned)" by (auto simp: range_body_def)
    with assms Suc show ?thesis by (simp add: range_def)
  next
    case False
    then have sign: "js_lt c (Fin 0) \<or> js_gt c (Fin 0)"
      by (intro step_sign) (auto simp: isNaN_def)
    show ?thesis
    proof (cases "js_lt a b")
      case up: True
      show ?thesis
      proof (cases "js_lt c (Fin 0)")
        case True
        with up False have "range_body a b c = (None, Returned)" by (auto simp: range_body_def)
        with assms Suc show ?thesis by (simp add: range_def)
      next
        case neg: False
        with sign have pos: "js_gt c (Fin 0)" by simp
        from up False neg have "range_body a b c = (Some a, AscendingLoop a b c)"
          by (auto simp: range_body_def ascending_test_def)
        with assms Suc have "v = a \<or> v \<in> set (take_gen m (AscendingLoop a b c))"
          by (simp add: range_def)
        with up pos ascending_loop_values[OF pos, of v m a b] show ?thesis by auto
      qed
    next
      case notup: False
      show ?thesis
      proof (cases "js_gt a b \<and> \<not> js_gt c (Fin 0)")
        case False
        with notup \<open>\<not> (isNaN a \<or> isNaN b \<or> isNaN c \<or> js_strict_eq a b \<or> js_not c)\<close>
        have "range_body a b c = (None, Returned)"
          by (auto simp: range_body_def descending_block_def)
        with assms Suc show ?thesis by (simp add: range_def)
      next
        case True
        with sign have neg: "js_lt c (Fin 0)" by simp
        from True notup \<open>\<not> (isNaN a \<or> isNaN b \<or> isNaN c \<or> js_strict_eq a b \<or> js_not c)\<close>
        have "range_body a b c = (Some a, DescendingLoop a b c)"
          by (auto simp: range_body_def descending_block_def descending_test_def)
        with assms Suc have "v = a \<or> v \<in> set (take_gen m (DescendingLoop a b c))"
          by (simp add: range_def)
        with True neg descending_loop_values[of v m a b c] show ?thesis by auto
      qed
    qed
  qed
qed

lemma range3_empty:
  assumes "js_not c \<or> js_strict_eq a b \<or> (js_lt a b \<and> js_lt c (Fin 0)) \<or>
    (js_gt a b \<and> js_gt c (Fin 0))"
  shows "range_next (range [a, b, c]) = Inr (None, Returned)"
proof -
  have "\<not> (js_lt a b \<and> js_gt a b)" by (cases a; cases b) (auto simp: js_gt_def)
  with assms show ?thesis
    by (auto simp: range_def range_body_def descending_block_def)
qed

section \<open>Claims about the sequencer\<close>

text \<open>
  C10. When the start, the stop or the step of a call is \<open>NaN\<close>, the sequence is
  empty: the generator yields nothing, whoever reads it (\<open>take_gen\<close> for any number of
  values, \<open>spread\<close> for all of them), and it ends without an error. In the one-argument
  form only the stop can be \<open>NaN\<close>, the start being \<open>0\<close> and the step \<open>1\<close>.
\<close>

theorem range_NaN_is_empty:
  "spread (range [NaN]) = Some (Inr []) \<and> take_gen n (range [NaN]) = [] \<and>
   spread (range [NaN, b]) = Some (Inr []) \<and> take_gen n (range [NaN, b]) = [] \<and>
   spread (range [a, NaN]) = Some (Inr []) \<and> take_gen n (range [a, NaN]) = [] \<and>
   spread (range [NaN, b, c]) = Some (Inr []) \<and> take_gen n (range [NaN, b, c]) = [] \<and>
   spread (range [a, NaN, c]) = Some (Inr []) \<and> take_gen n (range [a, NaN, c]) = [] \<and>
   spread (range [a, b, NaN]) = Some (Inr []) \<and> take_gen n (range [a, b, NaN]) = []"
proof -
  have n1: "range_next (range [NaN]) = Inr (None, Returned)"
    and n2: "range_next (range [NaN, b]) = Inr (None, Returned)"
    and n3: "range_next (range [a, NaN]) = Inr (None, Returned)"
    and n4: "range_next (range [NaN, b, c]) = Inr (None, Returned)"
    and n5: "range_next (range [a, NaN, c]) = Inr (None, Returned)"
    and n6: "range_next (range [a, b, NaN]) = Inr (None, Returned)"
    by (simp_all add: range_def range_body_NaN)
  show ?thesis
    by (simp add: spread_ended[OF n1] spread_ended[OF n2] spread_ended[OF n3]
        spread_ended[OF n4] spread_ended[OF n5] spread_ended[OF n6]
        take_gen_ended[OF n1] take_gen_ended[OF n2] take_gen_ended[OF n3]
        take_gen_ended[OF n4] take_gen_ended[OF n5] take_gen_ended[OF n6])
qed

text \<open>
  C4, as the code has it. For all numbers: the one-argument form is the call
  \<open>(0, stop, 1)\<close>; the two-argument form is the call with step \<open>1\<close> if
  \<open>start < stop\<close> and \<open>-1\<close> otherwise; the three-argument form yields nothing when
  the step is zero, start equals stop, or the step points away from the stop, and
  whatever it yields lies before the stop, in the direction of the step. When start and
  stop are integers of magnitude at most \<open>2 ^ 53\<close> and the step is an integer, the
  output is the sequence \<open>spec_range\<close>, strictly increasing for a positive step and
  strictly decreasing for a negative one.
\<close>

theorem range_forms_and_order:
  assumes "\<bar>a\<bar> \<le> 2 ^ 53" and "\<bar>b\<bar> \<le> 2 ^ 53"
  shows "spread (range [x]) = spread (range [Fin 0, x, Fin 1]) \<and>
    take_gen n (range [x]) = take_gen n (range [Fin 0, x, Fin 1]) \<and>
    spread (range [x, y]) = spread (range [x, y, if js_lt x y then Fin 1 else Fin (- 1)]) \<and>
    take_gen n (range [x, y]) = take_gen n (range [x, y, if js_lt x y then Fin 1 else Fin (- 1)]) \<and>
    (js_not z \<or> js_strict_eq x y \<or> (js_lt x y \<and> js_lt z (Fin 0)) \<or>
       (js_gt x y \<and> js_gt z (Fin 0)) \<longrightarrow>
     spread (range [x, y, z]) = Some (Inr []) \<and> take_gen n (range [x, y, z]) = []) \<and>
    (\<forall>v\<in>set (take_gen n (range [x, y, z])).
       (js_gt z (Fin 0) \<and> js_lt v y) \<or> (js_lt z (Fin 0) \<and> js_gt v y)) \<and>
    (\<exists>out. spread (range [Fin a, Fin b, Fin c]) = Some (Inr out) \<and>
       out = map Fin (spec_range a b c) \<and>
       (0 < c \<longrightarrow> sorted_wrt js_lt out) \<and> (c < 0 \<longrightarrow> sorted_wrt js_gt out))"
proof -
  have one: "spread (range [x]) = spread (range [Fin 0, x, Fin 1])"
    by (rule spread_next_cong) (rule range1_as_range3)
  have one': "take_gen n (range [x]) = take_gen n (range [Fin 0, x, Fin 1])"
    by (rule take_gen_next_cong) (rule range1_as_range3)
  have two: "spread (range [x, y]) = spread (range [x, y, if js_lt x y then Fin 1 else Fin (- 1)])"
    by (rule spread_next_cong) (rule range2_as_range3)
  have two': "take_gen n (range [x, y]) =
      take_gen n (range [x, y, if js_lt x y then Fin 1 else Fin (- 1)])"
    by (rule take_gen_next_cong) (rule range2_as_range3)
  have none: "js_not z \<or> js_strict_eq x y \<or> (js_lt x y \<and> js_lt z (Fin 0)) \<or>
       (js_gt x y \<and> js_gt z (Fin 0)) \<longrightarrow>
     spread (range [x, y, z]) = Some (Inr []) \<and> take_gen n (range [x, y, z]) = []"
    using spread_ended[OF range3_empty[of z x y]] take_gen_ended[OF range3_empty[of z x y]]
    by blast
  have stop: "\<forall>v\<in>set (take_gen n (range [x, y, z])).
       (js_gt z (Fin 0) \<and> js_lt v y) \<or> (js_lt z (Fin 0) \<and> js_gt v y)"
    using range3_values[of _ n x y z] by blast
  have three: "spread (range [Fin a, Fin b, Fin c]) = Some (Inr (map Fin (spec_range a b c)))"
    by (rule range3_spread[OF assms])
  have up: "0 < c \<longrightarrow> sorted_wrt js_lt (map Fin (spec_range a b c))"
    using spec_range_up[of c a b] by (simp add: sorted_wrt_map_Fin)
  have down: "c < 0 \<longrightarrow> sorted_wrt js_gt (map Fin (spec_range a b c))"
    using spec_range_down[of c a b] by (simp add: sorted_wrt_map_Fin)
  from one one' two two' none stop three up down show ?thesis by blast
qed

theorem range_forms_and_order_witness:
  "\<bar>0::int\<bar> \<le> 2 ^ 53 \<and> \<bar>5::int\<bar> \<le> 2 ^ 53 \<and>
   spread (range [Fin 0, Fin 5, Fin 2]) = Some (Inr [Fin 0, Fin 2, Fin 4]) \<and>
   sorted_wrt js_lt [Fin 0, Fin 2, Fin 4] \<and>
   spread (range [Fin 3]) = spread (range [Fin 0, Fin 3, Fin 1]) \<and>
   spread (range [Fin 3, Fin 5]) = spread (range [Fin 3, Fin 5, Fin 1]) \<and>
   spread (range [Fin 3, Fin 5, Fin (- 1)]) = Some (Inr [])"
proof -
  have h: "\<bar>0::int\<bar> \<le> 2 ^ 53" "\<bar>5::int\<bar> \<le> 2 ^ 53" by simp_all
  have "spec_range 0 5 2 = [0, 2, 4]"
    by (simp add: spec_range_def spec_ascending.simps)
  with range_forms_and_order[OF h, where x = "Fin 3" and y = "Fin 5" and z = "Fin (- 1)"
      and c = 2 and n = 0] h
  show ?thesis by simp
qed

text \<open>
  Outside these bounds the order is lost: counting down from \<open>Infinity\<close> yields
  \<open>Infinity\<close> again and again, and counting up by \<open>1\<close> from \<open>2 ^ 53\<close> yields
  \<open>2 ^ 53\<close> again and again, since \<open>2 ^ 53 + 1\<close> is rounded back to \<open>2 ^ 53\<close>.
\<close>

theorem range_order_counterexample:
  "take_gen 2 (range [PosInfinity, Fin 0, Fin (- 1)]) = [PosInfinity, PosInfinity] \<and>
   \<not> sorted_wrt js_gt (take_gen 2 (range [PosInfinity, Fin 0, Fin (- 1)])) \<and>
   take_gen 2 (range [Fin (2 ^ 53), Fin (2 ^ 53 + 2), Fin 1]) = [Fin (2 ^ 53), Fin (2 ^ 53)] \<and>
   \<not> sorted_wrt js_lt (take_gen 2 (range [Fin (2 ^ 53), Fin (2 ^ 53 + 2), Fin 1]))"
proof -
  have a: "take_gen 2 (range [PosInfinity, Fin 0, Fin (- 1)]) = [PosInfinity, PosInfinity]"
    by (simp add: numeral_2_eq_2 range_def range_body_def isNaN_def js_strict_eq_def js_not_def
        descending_block_def descending_test_def js_gt_def)
  have b: "take_gen 2 (range [Fin (2 ^ 53), Fin (2 ^ 53 + 2), Fin 1]) = [Fin (2 ^ 53), Fin (2 ^ 53)]"
    using round_to_double_tie
    by (simp add: numeral_2_eq_2 range_def range_body_def isNaN_def js_strict_eq_def js_not_def
        ascending_test_def)
  show ?thesis unfolding a b by (simp add: js_gt_def)
qed

text \<open>
  C9, as the code has it. When start and stop are integers of magnitude at most
  \<open>2 ^ 53\<close> and the step, where one is given, is an integer, the iteration ends:
  reading everything returns a list \<open>vs\<close>, the finite sequence \<open>spec_range\<close> of the
  arguments, and reading \<open>n\<close> values gives the first \<open>n\<close> of \<open>vs\<close>. The values are a
  function of the arguments, so a fresh call gives them again.
\<close>

theorem range_ends_on_safe_integers:
  assumes "\<bar>a\<bar> \<le> 2 ^ 53" and "\<bar>b\<bar> \<le> 2 ^ 53"
  shows "(\<exists>vs. spread (range [Fin a]) = Some (Inr vs) \<and>
            vs = map Fin (spec_range 0 a 1) \<and>
            (\<forall>n. take_gen n (range [Fin a]) = take n vs)) \<and>
         (\<exists>vs. spread (range [Fin a, Fin b]) = Some (Inr vs) \<and>
            vs = map Fin (spec_range a b (if a < b then 1 else - 1)) \<and>
            (\<forall>n. take_gen n (range [Fin a, Fin b]) = take n vs)) \<and>
         (\<exists>vs. spread (range [Fin a, Fin b, Fin c]) = Some (Inr vs) \<and>
            vs = map Fin (spec_range a b c) \<and>
            (\<forall>n. take_gen n (range [Fin a, Fin b, Fin c]) = take n vs))"
proof -
  have z: "\<bar>0::int\<bar> \<le> 2 ^ 53" by simp
  have "spread (range [Fin a]) = spread (range [Fin 0, Fin a, Fin 1])"
    by (rule spread_next_cong) (rule range1_as_range3)
  then have 1: "spread (range [Fin a]) = Some (Inr (map Fin (spec_range 0 a 1)))"
    by (simp only: range3_spread[OF z assms(1)])
  have "range_next (range [Fin a, Fin b]) =
      range_next (range [Fin a, Fin b, Fin (if a < b then 1 else - 1)])"
    by (simp add: range_def)
  then have "spread (range [Fin a, Fin b]) =
      spread (range [Fin a, Fin b, Fin (if a < b then 1 else - 1)])"
    by (rule spread_next_cong)
  then have 2: "spread (range [Fin a, Fin b]) =
      Some (Inr (map Fin (spec_range a b (if a < b then 1 else - 1))))"
    by (simp only: range3_spread[OF assms])
  have 3: "spread (range [Fin a, Fin b, Fin c]) = Some (Inr (map Fin (spec_range a b c)))"
    by (rule range3_spread[OF assms])
  from 1 2 3 spread_take_gen[OF 1] spread_take_gen[OF 2] spread_take_gen[OF 3]
  show ?thesis by blast
qed

theorem range_ends_on_safe_integers_witness:
  "\<bar>5::int\<bar> \<le> 2 ^ 53 \<and> \<bar>0::int\<bar> \<le> 2 ^ 53 \<and>
   spread (range [Fin 5]) = Some (Inr [Fin 0, Fin 1, Fin 2, Fin 3, Fin 4]) \<and>
   spread (range [Fin 5, Fin 0]) = Some (Inr [Fin 5, Fin 4, Fin 3, Fin 2, Fin 1]) \<and>
   spread (range [Fin 5, Fin 0, Fin (- 2)]) = Some (Inr [Fin 5, Fin 3, Fin 1])"
proof -
  have h: "\<bar>5::int\<bar> \<le> 2 ^ 53" "\<bar>0::int\<bar> \<le> 2 ^ 53" by simp_all
  have v: "spec_range 0 5 1 = [0, 1, 2, 3, 4]" "spec_range 5 0 (- 1) = [5, 4, 3, 2, 1]"
    "spec_range 5 0 (- 2) = [5, 3, 1]"
    by (simp_all add: spec_range_def spec_ascending.simps spec_descending.simps)
  from range_ends_on_safe_integers[OF h, of "- 2"] h v show ?thesis by simp
qed

text \<open>
  The iteration does not end for every argument list: \<open>range(0, Infinity)\<close> counts
  without end, and \<open>range(2 ^ 53, 2 ^ 53 + 2, 1)\<close> never leaves \<open>2 ^ 53\<close>.
\<close>

theorem range_never_ends_counterexample:
  "spread (range [Fin 0, PosInfinity]) = None \<and>
   spread (range [Fin (2 ^ 53), Fin (2 ^ 53 + 2), Fin 1]) = None"
proof -
  have nx: "range_next (range [Fin 0, PosInfinity]) =
      Inr (Some (Fin 0), AscendingLoop (Fin 0) PosInfinity (Fin 1))"
    by (simp add: range_def range_body_def isNaN_def js_strict_eq_def js_not_def
          ascending_test_def)
  have a: "spread (range [Fin 0, PosInfinity]) = None"
  proof (rule ccontr)
    assume "spread (range [Fin 0, PosInfinity]) \<noteq> None"
    then obtain r where r: "spread (range [Fin 0, PosInfinity]) = Some r" by blast
    then obtain r' where "spread (AscendingLoop (Fin 0) PosInfinity (Fin 1)) = Some r'"
      by (subst (asm) spread.simps) (auto simp: nx split: Option.bind_splits)
    from counting_up_never_ends[OF this] show False by simp
  qed
  have stuck: "range_next (AscendingLoop (Fin (2 ^ 53)) (Fin (2 ^ 53 + 2)) (Fin 1)) =
      Inr (Some (Fin (2 ^ 53)), AscendingLoop (Fin (2 ^ 53)) (Fin (2 ^ 53 + 2)) (Fin 1))"
    using round_to_double_tie by (simp add: ascending_test_def)
  have nx2: "range_next (range [Fin (2 ^ 53), Fin (2 ^ 53 + 2), Fin 1]) =
      Inr (Some (Fin (2 ^ 53)), AscendingLoop (Fin (2 ^ 53)) (Fin (2 ^ 53 + 2)) (Fin 1))"
    by (simp add: range_def range_body_def isNaN_def js_strict_eq_def js_not_def
          ascending_test_def)
  have "spread (range [Fin (2 ^ 53), Fin (2 ^ 53 + 2), Fin 1]) =
      Option.bind (spread (AscendingLoop (Fin (2 ^ 53)) (Fin (2 ^ 53 + 2)) (Fin 1)))
        (\<lambda>r. Some (case r of Inl e \<Rightarrow> Inl e | Inr vs \<Rightarrow> Inr (Fin (2 ^ 53) # vs)))"
    by (subst spread.simps) (simp only: nx2 sum.case prod.case option.case)
  also have "\<dots> = None"
    by (simp only: spread_self_loop[OF stuck] Option.bind.simps)
  finally have b: "spread (range [Fin (2 ^ 53), Fin (2 ^ 53 + 2), Fin 1]) = None" .
  from a b show ?thesis by simp
qed

section \<open>Evaluating the expanders\<close>

lemma range2_spread:
  assumes "\<bar>a\<bar> \<le> 2 ^ 53" "\<bar>b\<bar> \<le> 2 ^ 53"
  shows "spread (range [Fin a, Fin b]) =
    Some (Inr (map Fin (spec_range a b (if a < b then 1 else - 1))))"
proof -
  have "spread (range [Fin a, Fin b]) =
      spread (range [Fin a, Fin b, Fin (if a < b then 1 else - 1)])"
    by (rule spread_next_cong) (simp add: range_def)
  then show ?thesis by (simp only: range3_spread[OF assms])
qed

lemmas eval_defs =
  leaf_def day_def day_range_def unit_value_def unit_range_def unit_stepped_range_def field_def
  entry_in_field_def specs_of_field_def
  assertTokenType_def assertChildrenLengthEQ_def assertChildrenLengthGEQ_def
  assertChildrenLengthLEQ_def returns_def throws_def
  Set_of_def toLowerCase_def lower_char_def substring0_def SHORT_DAY_NAMES_def first_element_def
  token_def parent_def child_nodes_def findChildrenByType_def
  Number_def trim_def is_space_def unsigned_Number_def is_digit_def decimal_value_def
  round_to_double_def Math_min_def tokenTypeToMaximumValue_def child_text_def ranged_end_def
  spec_range_def spec_ascending.simps spec_descending.simps decimal_digits.simps
  char_of_def bit_iff_odd

section \<open>Sets, loops and assertions\<close>

lemma foldl_Set_add_set: "set (foldl Set_add acc xs) = set acc \<union> set xs"
  by (induction xs arbitrary: acc) auto

lemma foldl_Set_add_distinct: "distinct acc \<Longrightarrow> distinct (foldl Set_add acc xs)"
  by (induction xs arbitrary: acc) auto

lemma foldl_Set_add_head: "\<exists>rest. foldl Set_add (a # acc) xs = a # rest"
  by (induction xs arbitrary: acc) auto

lemma foldl_Set_add_id: "distinct (acc @ xs) \<Longrightarrow> foldl Set_add acc xs = acc @ xs"
  by (induction xs arbitrary: acc) auto

lemma set_Set_of: "set (Set_of xs) = set xs"
  by (simp add: Set_of_def foldl_Set_add_set)

lemma distinct_Set_of: "distinct (Set_of xs)"
  by (simp add: Set_of_def foldl_Set_add_distinct)

lemma Set_of_Cons: "\<exists>rest. Set_of (x # xs) = x # rest"
  using foldl_Set_add_head[of x "[]" xs] by (simp add: Set_of_def)

lemma Set_of_distinct: "distinct xs \<Longrightarrow> Set_of xs = xs"
  using foldl_Set_add_id[of "[]" xs] by (simp add: Set_of_def)

lemma indexOf_bounds: "- 1 \<le> indexOf ys x \<and> indexOf ys x < int (length ys)"
  by (induction ys) (auto simp: Let_def)

lemma and_then_total: "m \<noteq> None \<Longrightarrow> (\<And>v. f v \<noteq> None) \<Longrightarrow> and_then m f \<noteq> None"
  by (cases "(m, f)" rule: and_then.cases) auto

lemma and_then_returns:
  "and_then m f = Some (Inr w) \<Longrightarrow> \<exists>v. m = Some (Inr v) \<and> f v = Some (Inr w)"
  by (cases "(m, f)" rule: and_then.cases) auto

lemma push_each_total: "(\<And>x. x \<in> set xs \<Longrightarrow> f x \<noteq> None) \<Longrightarrow> push_each f xs \<noteq> None"
proof (induction xs)
  case Nil
  then show ?case by (simp add: returns_def)
next
  case (Cons x xs)
  obtain y where y: "f x = Some y" using Cons.prems by fastforce
  obtain z where z: "push_each f xs = Some z" using Cons by fastforce
  show ?case by (cases y; cases z) (simp_all add: y z returns_def)
qed

lemma push_each_values:
  "push_each f xs = Some (Inr vs) \<Longrightarrow> v \<in> set vs \<Longrightarrow>
     \<exists>x\<in>set xs. \<exists>ws. f x = Some (Inr ws) \<and> v \<in> set ws"
proof (induction xs arbitrary: vs)
  case Nil
  then show ?case by (simp add: returns_def)
next
  case (Cons x xs)
  from Cons.prems(1) obtain ws where ws: "f x = Some (Inr ws)"
    and rest: "and_then (push_each f xs) (\<lambda>us. returns (ws @ us)) = Some (Inr vs)"
    by (auto dest!: and_then_returns)
  from rest obtain us where us: "push_each f xs = Some (Inr us)" and vs: "vs = ws @ us"
    by (auto dest!: and_then_returns simp: returns_def)
  from Cons.prems(2) vs consider "v \<in> set ws" | "v \<in> set us" by auto
  then show ?case
  proof cases
    case 1
    with ws show ?thesis by auto
  next
    case 2
    from Cons.IH[OF us 2] show ?thesis by auto
  qed
qed

lemma checked_total: "r \<noteq> None \<Longrightarrow> checked c r \<noteq> None"
  by (cases c) (auto simp: throws_def)

lemma checked_returns: "checked c r = Some (Inr v) \<Longrightarrow> c = None \<and> r = Some (Inr v)"
  by (cases c) (auto simp: throws_def)

lemma extractTextForType_self:
  "type' t = ty \<Longrightarrow> \<exists>rest. extractTextForType t ty = text' t # rest"
  by (cases t) simp

lemma extractTextForType_child:
  "c \<in> set (children t) \<Longrightarrow> set (extractTextForType c ty) \<subseteq> set (extractTextForType t ty)"
  by (cases t) auto

section \<open>The weekday expander\<close>

lemma parseDayOfTheWeek_total: "parseDayOfTheWeek t \<noteq> None"
  by (simp add: parseDayOfTheWeek_def assertTokenType_def returns_def throws_def Let_def)

lemma parseDayOfTheWeek_first:
  assumes "type' t = ''DayOfTheWeek''"
  shows "\<exists>vs. parseDayOfTheWeek t = returns (Fin (day_index t) # vs)"
proof -
  from extractTextForType_self[OF assms] obtain rest
    where "extractTextForType t ''DayOfTheWeek'' = text' t # rest" by blast
  moreover obtain rest' where
    "Set_of (substring0 3 (toLowerCase (text' t)) # map (\<lambda>day. substring0 3 (toLowerCase day)) rest) =
      substring0 3 (toLowerCase (text' t)) # rest'"
    using Set_of_Cons[of "substring0 3 (toLowerCase (text' t))"
        "map (\<lambda>day. substring0 3 (toLowerCase day)) rest"] by blast
  ultimately show ?thesis
    using assms by (simp add: parseDayOfTheWeek_def assertTokenType_def day_index_def Let_def returns_def)
qed

lemma parseDayOfTheWeek_values:
  assumes "parseDayOfTheWeek t = Some (Inr vs)" "v \<in> set vs"
  shows "\<exists>s\<in>set (extractTextForType t ''DayOfTheWeek'').
    v = Fin (indexOf SHORT_DAY_NAMES (substring0 3 (toLowerCase s)))"
  using assms
  by (auto simp: parseDayOfTheWeek_def assertTokenType_def Let_def returns_def throws_def
      set_Set_of split: if_splits)

lemma spec_ascending_upto: "spec_ascending s b 1 = [s..b - 1]"
proof (induction s b "1::int" rule: spec_ascending.induct)
  case (1 s b)
  show ?case
  proof (cases "s < b")
    case True
    with 1 have "spec_ascending (s + 1) b 1 = [s + 1..b - 1]" by simp
    then show ?thesis using True
      by (subst spec_ascending.simps, subst upto.simps) simp
  next
    case False
    then show ?thesis by (subst spec_ascending.simps, subst upto.simps) simp
  qed
qed

lemma weekday_range_spread:
  assumes "- 1 \<le> a" "a \<le> b" "b \<le> 6"
  shows "spread (range [Fin a, js_add (Fin b) (Fin 1)]) = Some (Inr (map Fin [a..b]))"
proof -
  have "js_add (Fin b) (Fin 1) = Fin (b + 1)"
    using assms by (simp add: round_to_double_exact)
  moreover have "spread (range [Fin a, Fin (b + 1)]) =
      Some (Inr (map Fin (spec_range a (b + 1) (if a < b + 1 then 1 else - 1))))"
    using assms by (intro range2_spread) auto
  ultimately show ?thesis using assms by (simp add: spec_range_def spec_ascending_upto)
qed

lemma indexOf_SHORT_DAY_NAMES: "- 1 \<le> indexOf SHORT_DAY_NAMES s \<and> indexOf SHORT_DAY_NAMES s \<le> 6"
  using indexOf_bounds[of SHORT_DAY_NAMES s] by (simp add: SHORT_DAY_NAMES_def)

lemma parseRangedWeekDaySpec_days:
  assumes "type' t = ''RangedWeekDaySpec''" "children t = [A, B]"
    and "type' A = ''DayOfTheWeek''" "type' B = ''DayOfTheWeek''"
  shows "parseRangedWeekDaySpec t =
    (if day_index B < day_index A then throws (Error ''Systemd starts weeks on Monday'')
     else returns (map Fin [day_index A..day_index B]))"
proof -
  from parseDayOfTheWeek_first[OF assms(3)] obtain va
    where a: "parseDayOfTheWeek A = returns (Fin (day_index A) # va)" by blast
  from parseDayOfTheWeek_first[OF assms(4)] obtain vb
    where b: "parseDayOfTheWeek B = returns (Fin (day_index B) # vb)" by blast
  have bounds: "- 1 \<le> day_index A" "day_index B \<le> 6"
    using indexOf_SHORT_DAY_NAMES by (simp_all add: day_index_def)
  show ?thesis
  proof (cases "day_index B < day_index A")
    case True
    then show ?thesis using assms(1,2)
      by (simp add: parseRangedWeekDaySpec_def assertTokenType_def assertChildrenLengthEQ_def
          a b returns_def first_element_def)
  next
    case False
    then have "spread (range [Fin (day_index A), js_add (Fin (day_index B)) (Fin 1)]) =
        Some (Inr (map Fin [day_index A..day_index B]))"
      using bounds by (intro weekday_range_spread) auto
    then show ?thesis using assms(1,2) False
      by (simp add: parseRangedWeekDaySpec_def assertTokenType_def assertChildrenLengthEQ_def
          a b returns_def first_element_def)
  qed
qed

lemma parseRangedWeekDaySpec_cases:
  "(\<exists>e. parseRangedWeekDaySpec t = throws e) \<or>
   (\<exists>A B. children t = [A, B] \<and> type' A = ''DayOfTheWeek'' \<and> type' B = ''DayOfTheWeek'' \<and>
      day_index A \<le> day_index B \<and>
      parseRangedWeekDaySpec t = returns (map Fin [day_index A..day_index B]))"
proof (cases "type' t = ''RangedWeekDaySpec'' \<and> length (children t) = 2")
  case False
  then show ?thesis
    by (auto simp: parseRangedWeekDaySpec_def assertTokenType_def assertChildrenLengthEQ_def throws_def)
next
  case True
  then obtain A B where ch: "children t = [A, B]"
    by (cases "children t"; cases "tl (children t)") auto
  show ?thesis
  proof (cases "type' A = ''DayOfTheWeek''")
    case False
    then show ?thesis using True ch
      by (auto simp: parseRangedWeekDaySpec_def assertTokenType_def assertChildrenLengthEQ_def
          parseDayOfTheWeek_def throws_def)
  next
    case A: True
    from parseDayOfTheWeek_first[OF A] obtain va
      where a: "parseDayOfTheWeek A = returns (Fin (day_index A) # va)" by blast
    show ?thesis
    proof (cases "type' B = ''DayOfTheWeek''")
      case False
      then show ?thesis using True ch a
        by (auto simp: parseRangedWeekDaySpec_def assertTokenType_def assertChildrenLengthEQ_def
            parseDayOfTheWeek_def[of B] throws_def returns_def)
    next
      case B: True
      have eq: "parseRangedWeekDaySpec t =
          (if day_index B < day_index A then throws (Error ''Systemd starts weeks on Monday'')
           else returns (map Fin [day_index A..day_index B]))"
        using True by (intro parseRangedWeekDaySpec_days[OF _ ch A B]) simp
      show ?thesis
      proof (cases "day_index B < day_index A")
        case True
        with eq show ?thesis by auto
      next
        case False
        with eq ch A B show ?thesis by auto
      qed
    qed
  qed
qed

section \<open>Day names, and sorting single digits\<close>

lemma is_day_name_cases:
  assumes "is_day_name s"
  obtains "toLowerCase s = ''monday''" | "toLowerCase s = ''tuesday''"
    | "toLowerCase s = ''wednesday''" | "toLowerCase s = ''thursday''"
    | "toLowerCase s = ''friday''" | "toLowerCase s = ''saturday''"
    | "toLowerCase s = ''sunday''" | "toLowerCase s = ''mon''" | "toLowerCase s = ''tue''"
    | "toLowerCase s = ''wed''" | "toLowerCase s = ''thu''" | "toLowerCase s = ''fri''"
    | "toLowerCase s = ''sat''" | "toLowerCase s = ''sun''"
  using assms unfolding is_day_name_def DAY_NAMES_def SHORT_DAY_NAMES_def
  by (simp only: set_simps insert_iff empty_iff) blast

lemma is_day_name_index:
  assumes "is_day_name s"
  shows "indexOf SHORT_DAY_NAMES (substring0 3 (toLowerCase s)) = canonical_index s \<and>
    0 \<le> canonical_index s \<and> canonical_index s \<le> 6"
  using assms
  by (rule is_day_name_cases)
     (simp_all add: canonical_index_def DAY_NAMES_def SHORT_DAY_NAMES_def substring0_def)

lemma digit_code: "n < 10 \<Longrightarrow> of_char (''0123456789'' ! n) = (48 + n :: nat)"
proof -
  assume "n < 10"
  then have "n \<in> {0, 1, 2, 3, 4, 5, 6, 7, 8, 9}" by auto
  then show ?thesis by auto
qed

lemma string_lt_digits:
  assumes "0 \<le> i" "i \<le> 9" "0 \<le> j" "j \<le> 9"
  shows "string_lt (ToString (Fin j)) (ToString (Fin i)) = (j < i)"
proof -
  have "nat i < 10" "nat j < 10" using assms by auto
  then show ?thesis using assms
    by (simp add: decimal_digits.simps digit_code) linarith
qed

lemma sort_insert_digits:
  assumes "0 \<le> x" "x \<le> 9" "\<forall>y\<in>set ys. 0 \<le> y \<and> y \<le> 9"
  shows "sort_insert (Fin x) (map Fin ys) = map Fin (insort x ys)"
  using assms(3)
proof (induction ys)
  case Nil
  then show ?case by simp
next
  case (Cons y ys)
  then have "string_lt (ToString (Fin y)) (ToString (Fin x)) = (y < x)"
    using assms(1,2) by (intro string_lt_digits) auto
  then show ?case using Cons by auto
qed

lemma js_sort_digits:
  "\<forall>y\<in>set ys. 0 \<le> y \<and> y \<le> 9 \<Longrightarrow> js_sort (map Fin ys) = map Fin (sort ys)"
proof (induction ys)
  case Nil
  then show ?case by simp
next
  case (Cons y ys)
  then have "js_sort (map Fin ys) = map Fin (sort ys)" by simp
  moreover have "sort_insert (Fin y) (map Fin (sort ys)) = map Fin (insort y (sort ys))"
    using Cons.prems by (intro sort_insert_digits) auto
  ultimately show ?case by simp
qed

lemma Set_of_map_Fin: "Set_of (map Fin xs) = map Fin (Set_of xs)"
proof -
  have "foldl Set_add (map Fin acc) (map Fin xs) = map Fin (foldl Set_add acc xs)" for acc
  proof (induction xs arbitrary: acc)
    case Nil
    then show ?case by simp
  next
    case (Cons x xs)
    show ?case using Cons[of acc] Cons[of "acc @ [x]"] by (auto simp: image_iff)
  qed
  from this[of "[]"] show ?thesis by (simp add: Set_of_def)
qed

lemma Fin_list: "set vs \<subseteq> Fin ` S \<Longrightarrow> \<exists>xs. vs = map Fin xs \<and> set xs \<subseteq> S"
proof (induction vs)
  case Nil
  then show ?case by simp
next
  case (Cons v vs)
  then obtain xs where "vs = map Fin xs" "set xs \<subseteq> S" by auto
  moreover from Cons.prems obtain x where "v = Fin x" "x \<in> S" by auto
  ultimately have "v # vs = map Fin (x # xs) \<and> set (x # xs) \<subseteq> S" by simp
  then show ?case by (rule exI[of _ "x # xs"])
qed

text \<open>A normalised list of weekdays: what \<open>expandWeekDaySpec\<close> returns.\<close>

lemma normalise_weekdays:
  assumes "set vs \<subseteq> Fin ` {0..6}"
  shows "\<exists>xs. js_sort (Set_of vs) = map Fin xs \<and> sorted xs \<and> distinct xs \<and> set xs \<subseteq> {0..6}"
proof -
  from Fin_list[OF assms] obtain ys where ys: "vs = map Fin ys" "set ys \<subseteq> {0..6}" by blast
  have d: "\<forall>y\<in>set (Set_of ys). 0 \<le> y \<and> y \<le> 9" using ys(2) by (auto simp: set_Set_of)
  have "js_sort (Set_of vs) = map Fin (sort (Set_of ys))"
    by (simp add: ys(1) Set_of_map_Fin js_sort_digits[OF d])
  moreover have "distinct (sort (Set_of ys))" by (simp add: distinct_Set_of)
  moreover have "set (sort (Set_of ys)) \<subseteq> {0..6}" using ys(2) by (simp add: set_Set_of)
  ultimately show ?thesis by (intro exI[of _ "sort (Set_of ys)"]) simp
qed

lemma normalised_fixpoint:
  assumes "sorted xs" "distinct xs" "set xs \<subseteq> {0..6}"
  shows "js_sort (Set_of (map Fin xs)) = map Fin xs"
proof -
  have d: "\<forall>y\<in>set xs. 0 \<le> y \<and> y \<le> 9" using assms(3) by auto
  have "Set_of (map Fin xs) = map Fin xs"
    using assms(2) by (intro Set_of_distinct) (simp add: distinct_map inj_on_def)
  moreover have "sort xs = xs" using assms(1) by (simp add: sort_key_id_if_sorted)
  ultimately show ?thesis by (simp add: js_sort_digits[OF d])
qed

section \<open>Weekday specs whose day names the grammar accepts\<close>

lemma day_names_child:
  assumes "list_all is_day_name (extractTextForType t ''DayOfTheWeek'')" "c \<in> set (children t)"
  shows "list_all is_day_name (extractTextForType c ''DayOfTheWeek'')"
  using assms extractTextForType_child[OF assms(2), of "''DayOfTheWeek''"]
  by (auto simp: list_all_iff)

lemma day_names_index:
  assumes "list_all is_day_name (extractTextForType t ''DayOfTheWeek'')"
    and "type' t = ''DayOfTheWeek''"
  shows "0 \<le> day_index t \<and> day_index t \<le> 6"
proof -
  from extractTextForType_self[OF assms(2)] assms(1) have "is_day_name (text' t)" by auto
  from is_day_name_index[OF this] show ?thesis by (simp add: day_index_def)
qed

lemma parseDayOfTheWeek_weekdays:
  assumes "list_all is_day_name (extractTextForType t ''DayOfTheWeek'')"
    and "parseDayOfTheWeek t = Some (Inr vs)"
  shows "set vs \<subseteq> Fin ` {0..6}"
proof
  fix v assume "v \<in> set vs"
  from parseDayOfTheWeek_values[OF assms(2) this] obtain s
    where s: "s \<in> set (extractTextForType t ''DayOfTheWeek'')"
      and v: "v = Fin (indexOf SHORT_DAY_NAMES (substring0 3 (toLowerCase s)))" by blast
  from s assms(1) have "is_day_name s" by (simp add: list_all_iff)
  from is_day_name_index[OF this] v show "v \<in> Fin ` {0..6}" by simp
qed

lemma parseRangedWeekDaySpec_total: "parseRangedWeekDaySpec t \<noteq> None"
  using parseRangedWeekDaySpec_cases[of t] by (auto simp: throws_def returns_def)

lemma parseRangedWeekDaySpec_weekdays:
  assumes "list_all is_day_name (extractTextForType t ''DayOfTheWeek'')"
    and "parseRangedWeekDaySpec t = Some (Inr vs)"
  shows "set vs \<subseteq> Fin ` {0..6}"
proof -
  from parseRangedWeekDaySpec_cases[of t] assms(2) obtain A B
    where ch: "children t = [A, B]" and ty: "type' A = ''DayOfTheWeek''" "type' B = ''DayOfTheWeek''"
      and vs: "vs = map Fin [day_index A..day_index B]"
    by (auto simp: throws_def returns_def)
  have "0 \<le> day_index A"
    using day_names_index[OF day_names_child[OF assms(1), of A] ty(1)] ch by simp
  moreover have "day_index B \<le> 6"
    using day_names_index[OF day_names_child[OF assms(1), of B] ty(2)] ch by simp
  ultimately show ?thesis by (auto simp: vs)
qed

lemma parseWeekDaySpecEntry_child_total: "parseWeekDaySpecEntry_child t \<noteq> None"
  using parseRangedWeekDaySpec_total[of t] parseDayOfTheWeek_total[of t]
  by (auto simp: throws_def)

lemma parseWeekDaySpecEntry_child_weekdays:
  assumes "list_all is_day_name (extractTextForType t ''DayOfTheWeek'')"
    and "parseWeekDaySpecEntry_child t = Some (Inr vs)"
  shows "set vs \<subseteq> Fin ` {0..6}"
  using assms parseRangedWeekDaySpec_weekdays[of t vs] parseDayOfTheWeek_weekdays[of t vs]
  by (auto simp: throws_def split: if_splits)

lemma parseWeekDaySpecEntry_total: "parseWeekDaySpecEntry t \<noteq> None"
  unfolding parseWeekDaySpecEntry_def
  by (intro checked_total push_each_total parseWeekDaySpecEntry_child_total)

lemma parseWeekDaySpecEntry_weekdays:
  assumes "list_all is_day_name (extractTextForType t ''DayOfTheWeek'')"
    and "parseWeekDaySpecEntry t = Some (Inr vs)"
  shows "set vs \<subseteq> Fin ` {0..6}"
proof
  fix v assume v: "v \<in> set vs"
  from assms(2) have "push_each parseWeekDaySpecEntry_child (children t) = Some (Inr vs)"
    unfolding parseWeekDaySpecEntry_def by (auto dest!: checked_returns)
  from push_each_values[OF this v] obtain c ws
    where c: "c \<in> set (children t)" and ws: "parseWeekDaySpecEntry_child c = Some (Inr ws)"
      and vw: "v \<in> set ws" by blast
  from parseWeekDaySpecEntry_child_weekdays[OF day_names_child[OF assms(1) c] ws] vw
  show "v \<in> Fin ` {0..6}" by blast
qed

lemma expandWeekDaySpec_total: "expandWeekDaySpec t \<noteq> None"
  unfolding expandWeekDaySpec_def
  by (intro checked_total and_then_total push_each_total parseWeekDaySpecEntry_total)
     (simp add: returns_def)

lemma expandWeekDaySpec_normalised:
  assumes "list_all is_day_name (extractTextForType t ''DayOfTheWeek'')"
    and "expandWeekDaySpec t = Some (Inr days)"
  shows "\<exists>xs. days = map Fin xs \<and> sorted xs \<and> distinct xs \<and> set xs \<subseteq> {0..6}"
proof -
  from assms(2) obtain vs
    where vs: "push_each parseWeekDaySpecEntry (children t) = Some (Inr vs)"
      and days: "days = js_sort (Set_of vs)"
    unfolding expandWeekDaySpec_def
    by (auto dest!: checked_returns and_then_returns simp: returns_def)
  have "set vs \<subseteq> Fin ` {0..6}"
  proof
    fix v assume v: "v \<in> set vs"
    from push_each_values[OF vs v] obtain c ws
      where c: "c \<in> set (children t)" and ws: "parseWeekDaySpecEntry c = Some (Inr ws)"
        and vw: "v \<in> set ws" by blast
    from parseWeekDaySpecEntry_weekdays[OF day_names_child[OF assms(1) c] ws] vw
    show "v \<in> Fin ` {0..6}" by blast
  qed
  from normalise_weekdays[OF this] show ?thesis by (simp add: days)
qed

lemma expandWeekDaySpec_single_day:
  assumes "is_day_name s"
  shows "expandWeekDaySpec (IToken ''WeekDaySpec'' s [day s]) = returns [Fin (canonical_index s)]"
proof -
  have "indexOf SHORT_DAY_NAMES (take 3 (toLowerCase s)) = canonical_index s"
    using is_day_name_index[OF assms] by (simp add: substring0_def)
  then show ?thesis
    by (simp add: expandWeekDaySpec_def parseWeekDaySpecEntry_def parseDayOfTheWeek_def
        day_def leaf_def assertTokenType_def assertChildrenLengthGEQ_def returns_def
        Set_of_def substring0_def)
qed

section \<open>The special expressions\<close>

lemma special_leaf:
  "expandSpecialExpression (IToken ''SpecialExpressions'' tx []) =
     returns (map_of SPECIAL_EXPRESSION_EXPANSION_MAP tx)"
  by (simp add: expandSpecialExpression_def assertTokenType_def assertChildrenLengthLEQ_def)

lemma special_other_type:
  "ty \<noteq> ''SpecialExpressions'' \<Longrightarrow>
     expandSpecialExpression (IToken ty tx cs) =
       throws (UnexpectedTokenTypeError ''SpecialExpressions'' ty)"
  by (simp add: expandSpecialExpression_def assertTokenType_def)

lemma decimal_digits_0: "decimal_digits 0 = ''0''"
  by (simp add: decimal_digits.simps)

lemma special_children:
  "cs \<noteq> [] \<Longrightarrow>
     expandSpecialExpression (IToken ''SpecialExpressions'' tx cs) =
       throws (UnexpectedChildrenError ''at most 0'' (length cs))"
  by (simp add: expandSpecialExpression_def assertTokenType_def assertChildrenLengthLEQ_def
      decimal_digits_0)

section \<open>Claims about the expanders\<close>

text \<open>
  C5. For a weekday spec whose \<open>DayOfTheWeek\<close> texts are day names, in full or in
  three letters and in any case, \<open>expandWeekDaySpec\<close> always comes back, and the list
  it returns holds only indices from \<open>0\<close> to \<open>6\<close>, in strictly ascending order;
  normalising that list again (\<open>Set\<close>, then \<open>sort\<close>) gives the same list. A single
  day name \<open>s\<close> expands to its canonical index, Monday \<open>0\<close> to Sunday \<open>6\<close>, and
  \<open>Sat,Thu,Mon..Wed,Sat..Sun\<close> expands to \<open>[0,1,2,3,5,6]\<close>.
\<close>

theorem expandWeekDaySpec_indices:
  assumes "list_all is_day_name (extractTextForType t ''DayOfTheWeek'')"
    and "is_day_name s"
  shows "(\<exists>r. expandWeekDaySpec t = Some r) \<and>
    (\<forall>days. expandWeekDaySpec t = returns days \<longrightarrow>
       (\<forall>d\<in>set days. \<exists>i. d = Fin i \<and> 0 \<le> i \<and> i \<le> 6) \<and>
       sorted_wrt js_lt days \<and> js_sort (Set_of days) = days) \<and>
    expandWeekDaySpec (IToken ''WeekDaySpec'' s [day s]) = returns [Fin (canonical_index s)] \<and>
    0 \<le> canonical_index s \<and> canonical_index s \<le> 6 \<and>
    map canonical_index [''Monday'', ''tue'', ''WED'', ''Thursday'', ''fri'', ''SATURDAY'', ''Sun'']
      = [0, 1, 2, 3, 4, 5, 6] \<and>
    expandWeekDaySpec weekdays_example = returns (map Fin [0, 1, 2, 3, 5, 6])"
proof -
  have total: "\<exists>r. expandWeekDaySpec t = Some r"
    using expandWeekDaySpec_total[of t] by auto
  have norm: "(\<forall>d\<in>set days. \<exists>i. d = Fin i \<and> 0 \<le> i \<and> i \<le> 6) \<and>
       sorted_wrt js_lt days \<and> js_sort (Set_of days) = days"
    if "expandWeekDaySpec t = returns days" for days
  proof -
    from expandWeekDaySpec_normalised[OF assms(1)] that obtain xs
      where xs: "days = map Fin xs" "sorted xs" "distinct xs" "set xs \<subseteq> {0..6}"
      by (auto simp: returns_def)
    have "sorted_wrt (<) xs" using xs(2,3) by (simp add: strict_sorted_iff)
    then have "sorted_wrt js_lt days" by (simp add: xs(1) sorted_wrt_map)
    moreover have "js_sort (Set_of days) = days"
      unfolding xs(1) by (rule normalised_fixpoint[OF xs(2,3,4)])
    moreover have "\<forall>d\<in>set days. \<exists>i. d = Fin i \<and> 0 \<le> i \<and> i \<le> 6"
      using xs(4) by (auto simp: xs(1))
    ultimately show ?thesis by simp
  qed
  have names: "map canonical_index
      [''Monday'', ''tue'', ''WED'', ''Thursday'', ''fri'', ''SATURDAY'', ''Sun'']
      = [0, 1, 2, 3, 4, 5, 6]"
    by (simp add: canonical_index_def DAY_NAMES_def SHORT_DAY_NAMES_def toLowerCase_def
        lower_char_def char_of_def bit_iff_odd)
  have ex: "expandWeekDaySpec weekdays_example = returns (map Fin [0, 1, 2, 3, 5, 6])"
    by (simp add: expandWeekDaySpec_def weekdays_example_def parseWeekDaySpecEntry_def
        parseRangedWeekDaySpec_def parseDayOfTheWeek_def range2_spread eval_defs)
  from total norm expandWeekDaySpec_single_day[OF assms(2)] is_day_name_index[OF assms(2)]
    names ex
  show ?thesis by blast
qed

theorem expandWeekDaySpec_indices_witness:
  "list_all is_day_name (extractTextForType weekdays_example ''DayOfTheWeek'') \<and>
   is_day_name ''SunDAY'' \<and>
   expandWeekDaySpec weekdays_example = returns [Fin 0, Fin 1, Fin 2, Fin 3, Fin 5, Fin 6] \<and>
   sorted_wrt js_lt [Fin 0, Fin 1, Fin 2, Fin 3, Fin 5, Fin 6] \<and>
   expandWeekDaySpec (IToken ''WeekDaySpec'' ''SunDAY'' [day ''SunDAY'']) = returns [Fin 6]"
proof -
  have h1: "list_all is_day_name (extractTextForType weekdays_example ''DayOfTheWeek'')"
    by (simp add: weekdays_example_def day_def day_range_def leaf_def is_day_name_def
        DAY_NAMES_def SHORT_DAY_NAMES_def toLowerCase_def lower_char_def char_of_def bit_iff_odd)
  have h2: "is_day_name ''SunDAY''"
    by (simp add: is_day_name_def DAY_NAMES_def SHORT_DAY_NAMES_def toLowerCase_def
        lower_char_def char_of_def bit_iff_odd)
  have c: "canonical_index ''SunDAY'' = 6"
    by (simp add: canonical_index_def DAY_NAMES_def SHORT_DAY_NAMES_def toLowerCase_def
        lower_char_def char_of_def bit_iff_odd)
  from expandWeekDaySpec_indices[OF h1 h2] h1 h2 c show ?thesis by simp
qed

text \<open>
  C6, as the code has it. For a weekday range \<open>A..B\<close> (a \<open>RangedWeekDaySpec\<close> with
  two \<open>DayOfTheWeek\<close> children) the expansion returns, and returns the indices from
  that of \<open>A\<close> to that of \<open>B\<close>, exactly when \<open>index(B) \<ge> index(A)\<close>, the index of a
  day name being its canonical one; when \<open>index(B) < index(A)\<close> it throws an \<open>Error\<close>
  with the message \<open>Systemd starts weeks on Monday\<close>, which mentions \<open>Monday\<close>, and
  so does the expansion of \<open>sun..tue\<close>.
\<close>

theorem weekday_range_order:
  assumes "type' t = ''RangedWeekDaySpec''" and "children t = [A, B]"
    and "type' A = ''DayOfTheWeek''" and "type' B = ''DayOfTheWeek''"
  shows "(day_index A \<le> day_index B \<longrightarrow>
       parseRangedWeekDaySpec t = returns (map Fin [day_index A..day_index B])) \<and>
    (day_index B < day_index A \<longrightarrow>
       parseRangedWeekDaySpec t = throws (Error ''Systemd starts weeks on Monday'')) \<and>
    ((\<exists>vs. parseRangedWeekDaySpec t = returns vs) = (day_index A \<le> day_index B)) \<and>
    (is_day_name (text' A) \<longrightarrow> day_index A = canonical_index (text' A)) \<and>
    (is_day_name (text' B) \<longrightarrow> day_index B = canonical_index (text' B)) \<and>
    mentions ''Systemd starts weeks on Monday'' ''Monday'' \<and>
    expandWeekDaySpec sun_tue = throws (Error ''Systemd starts weeks on Monday'')"
proof -
  have eq: "parseRangedWeekDaySpec t =
      (if day_index B < day_index A then throws (Error ''Systemd starts weeks on Monday'')
       else returns (map Fin [day_index A..day_index B]))"
    by (rule parseRangedWeekDaySpec_days[OF assms])
  have 1: "day_index A \<le> day_index B \<longrightarrow>
       parseRangedWeekDaySpec t = returns (map Fin [day_index A..day_index B])"
    using eq by simp
  have 2: "day_index B < day_index A \<longrightarrow>
       parseRangedWeekDaySpec t = throws (Error ''Systemd starts weeks on Monday'')"
    using eq by simp
  have 3: "(\<exists>vs. parseRangedWeekDaySpec t = returns vs) = (day_index A \<le> day_index B)"
    using eq by (auto simp: returns_def throws_def)
  have 4: "is_day_name (text' C) \<longrightarrow> day_index C = canonical_index (text' C)" for C
    using is_day_name_index[of "text' C"] by (simp add: day_index_def)
  have 5: "mentions ''Systemd starts weeks on Monday'' ''Monday''" by simp
  have 6: "expandWeekDaySpec sun_tue = throws (Error ''Systemd starts weeks on Monday'')"
    by (simp add: expandWeekDaySpec_def sun_tue_def parseWeekDaySpecEntry_def
        parseRangedWeekDaySpec_def parseDayOfTheWeek_def range2_spread eval_defs)
  from 1 2 3 4[of A] 4[of B] 5 6 show ?thesis by blast
qed

theorem weekday_range_order_witness:
  "parseRangedWeekDaySpec
     (IToken ''RangedWeekDaySpec'' ''sun..tue''
        [leaf ''DayOfTheWeek'' ''sun'', leaf ''DayOfTheWeek'' ''tue''])
     = throws (Error ''Systemd starts weeks on Monday'') \<and>
   parseRangedWeekDaySpec
     (IToken ''RangedWeekDaySpec'' ''Mon..Wed''
        [leaf ''DayOfTheWeek'' ''Mon'', leaf ''DayOfTheWeek'' ''Wed''])
     = returns [Fin 0, Fin 1, Fin 2]"
proof -
  have i: "day_index (leaf ''DayOfTheWeek'' ''sun'') = 6" "day_index (leaf ''DayOfTheWeek'' ''tue'') = 1"
    "day_index (leaf ''DayOfTheWeek'' ''Mon'') = 0" "day_index (leaf ''DayOfTheWeek'' ''Wed'') = 2"
    by (simp_all add: day_index_def leaf_def SHORT_DAY_NAMES_def toLowerCase_def lower_char_def
        substring0_def char_of_def bit_iff_odd)
  have u: "[0..2::int] = [0, 1, 2]" by (simp add: upto.simps)
  have a: "parseRangedWeekDaySpec
     (IToken ''RangedWeekDaySpec'' ''sun..tue''
        [leaf ''DayOfTheWeek'' ''sun'', leaf ''DayOfTheWeek'' ''tue''])
     = throws (Error ''Systemd starts weeks on Monday'')"
    using weekday_range_order[of "IToken ''RangedWeekDaySpec'' ''sun..tue''
        [leaf ''DayOfTheWeek'' ''sun'', leaf ''DayOfTheWeek'' ''tue'']"
        "leaf ''DayOfTheWeek'' ''sun''" "leaf ''DayOfTheWeek'' ''tue''"]
    by (simp add: i) (simp add: leaf_def)
  have b: "parseRangedWeekDaySpec
     (IToken ''RangedWeekDaySpec'' ''Mon..Wed''
        [leaf ''DayOfTheWeek'' ''Mon'', leaf ''DayOfTheWeek'' ''Wed''])
     = returns [Fin 0, Fin 1, Fin 2]"
    using weekday_range_order[of "IToken ''RangedWeekDaySpec'' ''Mon..Wed''
        [leaf ''DayOfTheWeek'' ''Mon'', leaf ''DayOfTheWeek'' ''Wed'']"
        "leaf ''DayOfTheWeek'' ''Mon''" "leaf ''DayOfTheWeek'' ''Wed''"]
    by (simp add: i u) (simp add: leaf_def)
  from a b show ?thesis by simp
qed

text \<open>
  The message is not \<open>weeks start on Monday\<close>, and does not contain these words.
\<close>

theorem weekday_range_message_counterexample:
  "expandWeekDaySpec sun_tue = throws (Error ''Systemd starts weeks on Monday'') \<and>
   \<not> mentions ''Systemd starts weeks on Monday'' ''weeks start on Monday''"
  by (simp add: expandWeekDaySpec_def sun_tue_def parseWeekDaySpecEntry_def
        parseRangedWeekDaySpec_def parseDayOfTheWeek_def range2_spread eval_defs)

text \<open>
  C7, as the code has it. On a \<open>SpecialExpressions\<close> token with no children whose
  text is one of the nine keywords, \<open>expandSpecialExpression\<close> returns the keyword's
  calendar spec, a non-empty string; on a token of any other type it throws, and on a
  \<open>SpecialExpressions\<close> token with children it throws too.
\<close>

theorem expandSpecialExpression_keywords:
  "expandSpecialExpression (IToken ''SpecialExpressions'' ''minutely'' []) = returns (Some ''*-*-* *:*:00'') \<and>
   expandSpecialExpression (IToken ''SpecialExpressions'' ''hourly'' []) = returns (Some ''*-*-* *:00:00'') \<and>
   expandSpecialExpression (IToken ''SpecialExpressions'' ''daily'' []) = returns (Some ''*-*-* 00:00:00'') \<and>
   expandSpecialExpression (IToken ''SpecialExpressions'' ''weekly'' []) = returns (Some ''Mon *-*-* 00:00:00'') \<and>
   expandSpecialExpression (IToken ''SpecialExpressions'' ''monthly'' []) = returns (Some ''*-*-1 00:00:00'') \<and>
   expandSpecialExpression (IToken ''SpecialExpressions'' ''quarterly'' []) =
     returns (Some ''*-1,4,7,10-1 00:00:00'') \<and>
   expandSpecialExpression (IToken ''SpecialExpressions'' ''semiannually'' []) =
     returns (Some ''*-1,7-1 00:00:00'') \<and>
   expandSpecialExpression (IToken ''SpecialExpressions'' ''yearly'' []) = returns (Some ''*-1-1 00:00:00'') \<and>
   expandSpecialExpression (IToken ''SpecialExpressions'' ''annually'' []) = returns (Some ''*-1-1 00:00:00'') \<and>
   (\<forall>ty tx cs. ty \<noteq> ''SpecialExpressions'' \<longrightarrow>
      expandSpecialExpression (IToken ty tx cs) =
        throws (UnexpectedTokenTypeError ''SpecialExpressions'' ty)) \<and>
   (\<forall>tx cs. cs \<noteq> [] \<longrightarrow>
      expandSpecialExpression (IToken ''SpecialExpressions'' tx cs) =
        throws (UnexpectedChildrenError ''at most 0'' (length cs)))"
proof -
  have keys: "map (map_of SPECIAL_EXPRESSION_EXPANSION_MAP)
      [''minutely'', ''hourly'', ''daily'', ''weekly'', ''monthly'', ''quarterly'',
       ''semiannually'', ''yearly'', ''annually''] =
      map Some [''*-*-* *:*:00'', ''*-*-* *:00:00'', ''*-*-* 00:00:00'', ''Mon *-*-* 00:00:00'',
        ''*-*-1 00:00:00'', ''*-1,4,7,10-1 00:00:00'', ''*-1,7-1 00:00:00'', ''*-1-1 00:00:00'',
        ''*-1-1 00:00:00'']"
    by (simp add: SPECIAL_EXPRESSION_EXPANSION_MAP_def)
  show ?thesis
    using keys special_other_type special_children by (simp add: special_leaf)
qed

theorem expandSpecialExpression_keywords_witness:
  "expandSpecialExpression (IToken ''DateSpec'' ''*-*-*'' []) =
     throws (UnexpectedTokenTypeError ''SpecialExpressions'' ''DateSpec'') \<and>
   expandSpecialExpression (IToken ''SpecialExpressions'' ''hourly'' []) =
     returns (Some ''*-*-* *:00:00'')"
  using expandSpecialExpression_keywords by simp

text \<open>
  A \<open>SpecialExpressions\<close> token whose text is a keyword is refused when it has a
  child: the function asserts that there is none.
\<close>

theorem expandSpecialExpression_children_counterexample:
  "expandSpecialExpression
     (IToken ''SpecialExpressions'' ''hourly'' [leaf ''SpecialExpressions'' ''hourly'']) =
   throws (UnexpectedChildrenError ''at most 0'' 1)"
  by (simp add: expandSpecialExpression_def assertTokenType_def assertChildrenLengthLEQ_def
      leaf_def throws_def decimal_digits.simps)

section \<open>Where the code falls short of the claims\<close>

text \<open>
  C1. \<open>getNext\<close> on the tree of \<open>hourly America/Chicago\<close> with the reference
  \<open>2025-12-25T16:00:00-05:00\<close> returns what the clock says when it runs, whatever the
  reference is: a clock that says the reference instant gives the reference instant,
  not \<open>2025-12-25T17:00:00-05:00\<close>.
\<close>

theorem getNext_returns_the_clock:
  "getNext now hourly_example reference_instant = returns now \<and>
   getNext reference_instant hourly_example reference_instant \<noteq> returns expected_instant"
  by (simp add: getNext_def hourly_example_def assertTokenType_def returns_def
      reference_instant_def expected_instant_def)

text \<open>
  C2. A ranged entry stops before its end: in a month field \<open>1..3\<close> expands to
  \<open>[1,2]\<close>, \<open>1..5/2\<close> to \<open>[1,3]\<close>, and \<open>10..90\<close>, whose end is clamped to the
  maximum \<open>12\<close>, to \<open>[10,11]\<close>.
\<close>

theorem ranged_time_unit_excludes_its_end:
  "expandTimeUnitSpecEntry (entry_in_field ''Month'' (unit_range ''1'' ''3'')) =
     returns [Fin 1, Fin 2] \<and>
   expandTimeUnitSpecEntry (entry_in_field ''Month'' (unit_stepped_range ''1'' ''5'' ''2'')) =
     returns [Fin 1, Fin 3] \<and>
   expandTimeUnitSpecEntry (entry_in_field ''Month'' (unit_range ''10'' ''90'')) =
     returns [Fin 10, Fin 11]"
  by (simp add: expandTimeUnitSpecEntry_def expandTimeUnitSpecEntry_child_def range3_spread
      eval_defs)

text \<open>
  C3. \<open>expandTimeUnitSpec\<close> sorts its values as strings: the days \<open>9,10\<close> come back
  as \<open>[10,9]\<close>.
\<close>

theorem expandTimeUnitSpec_sorts_as_strings:
  "expandTimeUnitSpec
     (specs_of_field (field ''Day'' ''9,10'' [unit_value ''9'', unit_value ''10''])) =
   returns [Fin 10, Fin 9]"
  by (simp add: expandTimeUnitSpec_def expandTimeUnitSpec_token_def expandTimeUnitSpecEntry_def
      expandTimeUnitSpecEntry_child_def range3_spread eval_defs)

text \<open>
  C8. \<open>expandDateSpec\<close> on \<open>2025-12-25\<close> returns the months \<open>[12]\<close> and the days
  \<open>[25]\<close>, and a generator of years that was called with no argument: it yields
  nothing.
\<close>

theorem expandDateSpec_years_are_empty:
  "expandDateSpec date_example =
     returns \<lparr>years = range [NaN, NaN, NaN], months = [Fin 12], dates = [Fin 25]\<rparr> \<and>
   spread (range [NaN, NaN, NaN]) = Some (Inr [])"
  by (simp add: expandDateSpec_def date_example_def date_example_spec_def years_generator_def
      expandTimeUnitSpec_def expandTimeUnitSpec_token_def expandTimeUnitSpecEntry_def
      expandTimeUnitSpecEntry_child_def range3_spread eval_defs
      spread_ended range_def range_body_NaN)

end
